theory Spec2Isabelle
  imports Main "HOL-Library.Char_ord" "HOL-Library.List_Lexorder" "HOL-Library.Product_Lexorder"
begin

section \<open>Characters and strings\<close>

text \<open>
  Python strings are sequences of Unicode code points. The model uses Isabelle's 8-bit
  characters, standing for the code points below 256; the classification functions
  below are Python's \<^verbatim>\<open>str\<close> methods restricted to that range.
\<close>

definition code :: "char \<Rightarrow> nat" where
  "code c = of_char c"

definition in_range :: "nat \<Rightarrow> nat \<Rightarrow> char \<Rightarrow> bool" where
  "in_range lo hi c = (lo \<le> code c \<and> code c \<le> hi)"

text \<open>\<^verbatim>\<open>str.isalpha\<close>, \<^verbatim>\<open>str.isdigit\<close>, \<^verbatim>\<open>str.isalnum\<close>, \<^verbatim>\<open>str.isspace\<close> on one character.\<close>

definition isalpha :: "char \<Rightarrow> bool" where
  "isalpha c = (in_range 65 90 c \<or> in_range 97 122 c \<or> code c = 170 \<or> code c = 181
     \<or> code c = 186 \<or> in_range 192 214 c \<or> in_range 216 246 c \<or> in_range 248 255 c)"

definition isdigit :: "char \<Rightarrow> bool" where
  "isdigit c = (in_range 48 57 c \<or> in_range 178 179 c \<or> code c = 185)"

definition isalnum :: "char \<Rightarrow> bool" where
  "isalnum c = (isalpha c \<or> isdigit c \<or> in_range 188 190 c)"

definition isspace :: "char \<Rightarrow> bool" where
  "isspace c = (in_range 9 13 c \<or> in_range 28 32 c \<or> code c = 133 \<or> code c = 160)"

text \<open>\<^verbatim>\<open>str.lower\<close>: the lower case of a code point below 256 is below 256.\<close>

definition lower_char :: "char \<Rightarrow> char" where
  "lower_char c = (if in_range 65 90 c \<or> in_range 192 214 c \<or> in_range 216 222 c
                   then char_of (code c + 32) else c)"

definition lower :: "string \<Rightarrow> string" where
  "lower s = map lower_char s"

text \<open>
  The capital of a code point below 256 can lie above 255, so a text that holds capitals
  computed by the program is a list of code points: the messages of the findings are.
  \<open>ustr\<close> gives the code points of a string of the model.
\<close>

type_synonym ustring = "nat list"

definition ustr :: "string \<Rightarrow> ustring" where
  "ustr s = map code s"

text \<open>\<^verbatim>\<open>str.capitalize\<close>: the first character in title case, the rest in lower case (this
  is Python from version 3.8 on; before, the first character was put in upper case, which
  differs for code point 223 only, \<^verbatim>\<open>SS\<close> for \<^verbatim>\<open>Ss\<close>). \<open>title_char\<close> is the title case of
  one code point below 256: the micro sign 181 gives the Greek capital mu U+039C, the sharp
  s 223 gives the two letters \<^verbatim>\<open>Ss\<close>, and the y with diaeresis 255 gives U+0178.\<close>

definition title_char :: "char \<Rightarrow> ustring" where
  "title_char c =
     (if in_range 97 122 c \<or> in_range 224 246 c \<or> in_range 248 254 c then [code c - 32]
      else if code c = 181 then [924]
      else if code c = 223 then [83, 115]
      else if code c = 255 then [376]
      else [code c])"

fun capitalize :: "string \<Rightarrow> ustring" where
  "capitalize [] = []"
| "capitalize (c # cs) = title_char c @ ustr (lower cs)"

text \<open>\<^verbatim>\<open>s.startswith(p)\<close> and \<^verbatim>\<open>s.endswith(p)\<close>.\<close>

definition startswith :: "string \<Rightarrow> string \<Rightarrow> bool" where
  "startswith s p = (take (length p) s = p)"

definition endswith :: "string \<Rightarrow> string \<Rightarrow> bool" where
  "endswith s p = (length p \<le> length s \<and> drop (length s - length p) s = p)"

text \<open>\<^verbatim>\<open>s.lstrip(chars)\<close>, \<^verbatim>\<open>s.rstrip(chars)\<close>, \<^verbatim>\<open>s.strip(chars)\<close> for a predicate on characters;
  \<open>strip\<close> without argument removes white space.\<close>

definition lstrip_pred :: "(char \<Rightarrow> bool) \<Rightarrow> string \<Rightarrow> string" where
  "lstrip_pred P s = dropWhile P s"

definition rstrip_pred :: "(char \<Rightarrow> bool) \<Rightarrow> string \<Rightarrow> string" where
  "rstrip_pred P s = rev (dropWhile P (rev s))"

definition strip_pred :: "(char \<Rightarrow> bool) \<Rightarrow> string \<Rightarrow> string" where
  "strip_pred P s = rstrip_pred P (lstrip_pred P s)"

definition strip :: "string \<Rightarrow> string" where
  "strip s = strip_pred isspace s"

text \<open>\<^verbatim>\<open>s.split("::")\<close>: the separator is searched from the left, without overlap.\<close>

fun split_cc :: "string \<Rightarrow> string list" where
  "split_cc [] = [[]]"
| "split_cc [c] = [[c]]"
| "split_cc (c # d # cs) =
     (if c = CHR '':'' \<and> d = CHR '':'' then [] # split_cc cs
      else (case split_cc (d # cs) of [] \<Rightarrow> [[c]] | p # ps \<Rightarrow> (c # p) # ps))"

text \<open>\<^verbatim>\<open>sep.join(parts)\<close>.\<close>

fun join :: "string \<Rightarrow> string list \<Rightarrow> string" where
  "join sep [] = []"
| "join sep [p] = p"
| "join sep (p # q # ps) = p @ sep @ join sep (q # ps)"

text \<open>\<^verbatim>\<open>s.splitlines()\<close>: lines end at LF, VT, FF, CR, CR LF, FS, GS, RS and NEL; there is
  no empty last line.\<close>

definition is_linebreak :: "char \<Rightarrow> bool" where
  "is_linebreak c = (in_range 10 13 c \<or> in_range 28 30 c \<or> code c = 133)"

fun splitlines_acc :: "string \<Rightarrow> string \<Rightarrow> string list" where
  "splitlines_acc cur [] = (if cur = [] then [] else [rev cur])"
| "splitlines_acc cur [c] = (if is_linebreak c then [rev cur] else [rev (c # cur)])"
| "splitlines_acc cur (c # d # cs) =
     (if code c = 13 \<and> code d = 10 then rev cur # splitlines_acc [] cs
      else if is_linebreak c then rev cur # splitlines_acc [] (d # cs)
      else splitlines_acc (c # cur) (d # cs))"

definition splitlines :: "string \<Rightarrow> string list" where
  "splitlines s = splitlines_acc [] s"

text \<open>\<^verbatim>\<open>str(n)\<close> for an integer, as an f-string prints it.\<close>

fun digits_of :: "nat \<Rightarrow> string" where
  "digits_of n = (if n < 10 then [char_of (48 + n)]
                  else digits_of (n div 10) @ [char_of (48 + n mod 10)])"

declare digits_of.simps [simp del]

definition str_int :: "int \<Rightarrow> string" where
  "str_int i = (if i < 0 then CHR ''-'' # digits_of (nat (- i)) else digits_of (nat i))"

section \<open>The tree and the diagnostics\<close>

text \<open>\<^verbatim>\<open>ast_nodes.Element\<close> and \<^verbatim>\<open>ast_nodes.File\<close>.\<close>

datatype Element = Element
  (kind: string)
  (is_def: bool)
  (name: "string option")
  (type_ref: "string option")
  (specializes: "string list")
  (multiplicity: "string option")
  (body: "Element list")
  (doc: "string option")
  (modifiers: "string list")
  (line: int)
  (col: int)
  (import_path: "string option")
  (import_star: bool)

record File =
  filename :: string
  elements :: "Element list"

text \<open>\<^verbatim>\<open>diagnostic.Severity\<close> and \<^verbatim>\<open>diagnostic.Diagnostic\<close>.\<close>

datatype Severity = ERROR | WARNING | INFO

record Diagnostic =
  rule_id :: string
  severity :: Severity
  message :: ustring
  d_filename :: string
  d_line :: int
  d_col :: int

text \<open>\<^verbatim>\<open>Diagnostic.__lt__\<close> compares the tuples \<^verbatim>\<open>(filename, line, col)\<close>.\<close>

definition diag_key :: "Diagnostic \<Rightarrow> string \<times> int \<times> int" where
  "diag_key d = (d_filename d, d_line d, d_col d)"


text \<open>\<^verbatim>\<open>BaseRule._diag\<close>.\<close>

definition diag :: "string \<Rightarrow> Severity \<Rightarrow> ustring \<Rightarrow> string \<Rightarrow> int \<Rightarrow> int \<Rightarrow> Diagnostic" where
  "diag rid sev msg fname ln cl =
     \<lparr>rule_id = rid, severity = sev, message = msg, d_filename = fname, d_line = ln, d_col = cl\<rparr>"

text \<open>Python's truth value of an optional string: neither \<^verbatim>\<open>None\<close> nor empty.\<close>

fun truthy :: "string option \<Rightarrow> bool" where
  "truthy None = False"
| "truthy (Some s) = (s \<noteq> [])"

lemma body_size [termination_simp]: "size_list size (body e) < size e"
  by (cases e) simp

text \<open>\<^verbatim>\<open>BaseRule._walk\<close>: the visitor on an element, then the walk of its body, element
  by element.\<close>

fun walk :: "(Element \<Rightarrow> string \<Rightarrow> Element option \<Rightarrow> Diagnostic list) \<Rightarrow> Element list
    \<Rightarrow> string \<Rightarrow> Element option \<Rightarrow> Diagnostic list" where
  "walk visitor [] fname parent = []"
| "walk visitor (e # es) fname parent =
     visitor e fname parent @ walk visitor (body e) fname (Some e) @ walk visitor es fname parent"

section \<open>The naming rule\<close>

text \<open>\<^verbatim>\<open>rules/naming.py\<close>: the kinds of definitions, usages and packages.\<close>

definition NAMING_DEF_KINDS :: "string list" where
  "NAMING_DEF_KINDS =
    [''part_def'', ''action_def'', ''requirement_def'', ''attribute_def'',
     ''port_def'', ''enum_def'', ''interface_def'', ''connection_def'',
     ''connector_def'', ''allocation_def'', ''metadata_def'', ''behavior_def'',
     ''function_def'', ''predicate_def'', ''calc_def'', ''analysis_def'',
     ''state_def'', ''rendering_def'', ''view_def'', ''viewpoint_def'',
     ''occurrence_def'', ''interaction_def'', ''class_def'', ''assoc_def'',
     ''classifier_def'', ''datatype_def'', ''struct_def'', ''item_def'',
     ''type_def'', ''feature_def'', ''flow_def'', ''succession_def'',
     ''transition_def'', ''frame_def'', ''concern_def'', ''stakeholder_def'',
     ''constraint_def'', ''use_case_def'', ''verification_def'']"

definition USAGE_KINDS :: "string list" where
  "USAGE_KINDS =
    [''part'', ''action'', ''requirement'', ''attribute'', ''port'', ''interface'',
     ''connection'', ''connector'', ''allocation'', ''metadata'', ''behavior'',
     ''function'', ''predicate'', ''calc'', ''analysis'', ''state'', ''rendering'',
     ''view'', ''viewpoint'', ''occurrence'', ''interaction'', ''class'', ''assoc'',
     ''classifier'', ''datatype'', ''struct'', ''item'', ''type'', ''feature'',
     ''flow'', ''succession'', ''transition'', ''frame'', ''concern'', ''stakeholder'',
     ''constraint'', ''use_case'']"

definition PACKAGE_KINDS :: "string list" where
  "PACKAGE_KINDS = [''package'', ''namespace'']"

text \<open>The character classes of the two regular expressions, and the anchor \<^verbatim>\<open>$\<close>, which
  \<^verbatim>\<open>re.match\<close> lets match at the end of the string or before a line feed that ends it.\<close>

definition ascii_upper :: "char \<Rightarrow> bool" where
  "ascii_upper c = in_range 65 90 c"

definition ascii_lower :: "char \<Rightarrow> bool" where
  "ascii_lower c = in_range 97 122 c"

definition ascii_alnum :: "char \<Rightarrow> bool" where
  "ascii_alnum c = (ascii_lower c \<or> ascii_upper c \<or> in_range 48 57 c)"

definition star_dollar :: "(char \<Rightarrow> bool) \<Rightarrow> string \<Rightarrow> bool" where
  "star_dollar P s = (list_all P s \<or> (s \<noteq> [] \<and> code (last s) = 10 \<and> list_all P (butlast s)))"

text \<open>\<^verbatim>\<open>_is_pascal_case\<close>, \<^verbatim>\<open>_is_camel_or_snake\<close>, \<^verbatim>\<open>_is_quoted\<close>.\<close>

fun is_pascal_case :: "string \<Rightarrow> bool" where
  "is_pascal_case [] = False"
| "is_pascal_case (c # cs) = (ascii_upper c \<and> star_dollar ascii_alnum cs)"

fun is_camel_or_snake :: "string \<Rightarrow> bool" where
  "is_camel_or_snake [] = False"
| "is_camel_or_snake (c # cs) =
     (ascii_lower c \<and> star_dollar (\<lambda>x. ascii_alnum x \<or> x = CHR ''_'') cs)"

definition is_quoted :: "string \<Rightarrow> bool" where
  "is_quoted nm = startswith nm [CHR 0x27]"

text \<open>\<^verbatim>\<open>re.split(r"[_\s]+", name)\<close>: the pieces between the maximal runs of underscores
  and white space, the empty pieces at both ends included.\<close>

definition is_word_sep :: "char \<Rightarrow> bool" where
  "is_word_sep c = (c = CHR ''_'' \<or> isspace c)"

function re_split_acc :: "string \<Rightarrow> string \<Rightarrow> string list" where
  "re_split_acc cur [] = [rev cur]"
| "re_split_acc cur (c # cs) =
     (if is_word_sep c then rev cur # re_split_acc [] (dropWhile is_word_sep cs)
      else re_split_acc (c # cur) cs)"
  by pat_completeness auto
termination
  by (relation "measure (\<lambda>(cur, s). length s)")
     (auto simp: less_Suc_eq_le length_dropWhile_le)

definition re_split_words :: "string \<Rightarrow> string list" where
  "re_split_words s = re_split_acc [] s"

text \<open>\<^verbatim>\<open>_to_pascal\<close> and \<^verbatim>\<open>_to_camel\<close>.\<close>

definition to_pascal :: "string \<Rightarrow> ustring" where
  "to_pascal nm = concat (map capitalize (filter (\<lambda>w. w \<noteq> []) (re_split_words nm)))"

definition to_camel :: "string \<Rightarrow> ustring" where
  "to_camel nm =
     (case re_split_words nm of
        [] \<Rightarrow> ustr nm
      | w # ws \<Rightarrow> ustr (lower w) @ concat (map capitalize (filter (\<lambda>w. w \<noteq> []) ws)))"

text \<open>\<^verbatim>\<open>NamingRule._visit\<close>.\<close>

definition naming_visit :: "Element \<Rightarrow> string \<Rightarrow> Element option \<Rightarrow> Diagnostic list" where
  "naming_visit elem fname parent =
    (case name elem of
       None \<Rightarrow> []
     | Some nm \<Rightarrow>
        if nm = [] \<or> is_quoted nm then []
        else if kind elem \<in> set PACKAGE_KINDS then
          (if \<not> is_pascal_case nm then
             [diag ''W003'' WARNING
               (ustr (''Package/namespace '' @ [CHR 0x27] @ nm @ [CHR 0x27] @ '' should use PascalCase ''
                @ ''(e.g. '' @ [CHR 0x27]) @ to_pascal nm @ ustr ([CHR 0x27] @ '').''))
               fname (line elem) (col elem)]
           else [])
        else if kind elem \<in> set NAMING_DEF_KINDS then
          (if \<not> is_pascal_case nm then
             [diag ''W001'' WARNING
               (ustr (''Definition '' @ [CHR 0x27] @ nm @ [CHR 0x27] @ '' should use PascalCase ''
                @ ''(e.g. '' @ [CHR 0x27]) @ to_pascal nm @ ustr ([CHR 0x27] @ '').''))
               fname (line elem) (col elem)]
           else [])
        else if kind elem \<in> set USAGE_KINDS then
          (if \<not> is_camel_or_snake nm then
             [diag ''W002'' WARNING
               (ustr (''Usage '' @ [CHR 0x27] @ nm @ [CHR 0x27] @ '' should use camelCase or snake_case ''
                @ ''(e.g. '' @ [CHR 0x27]) @ to_camel nm @ ustr ([CHR 0x27] @ '').''))
               fname (line elem) (col elem)]
           else [])
        else [])"

text \<open>\<^verbatim>\<open>NamingRule.check\<close>.\<close>

definition naming_check :: "File \<Rightarrow> Diagnostic list" where
  "naming_check f = walk naming_visit (elements f) (filename f) None"

section \<open>The documentation rule\<close>

text \<open>\<^verbatim>\<open>rules/documentation.py\<close>.\<close>

definition DOC_DEF_KINDS :: "string list" where
  "DOC_DEF_KINDS =
    [''part_def'', ''action_def'', ''requirement_def'', ''attribute_def'',
     ''port_def'', ''enum_def'', ''interface_def'', ''connection_def'',
     ''connector_def'', ''allocation_def'', ''metadata_def'', ''behavior_def'',
     ''function_def'', ''predicate_def'', ''calc_def'', ''analysis_def'',
     ''state_def'', ''rendering_def'', ''view_def'', ''viewpoint_def'',
     ''occurrence_def'', ''interaction_def'', ''class_def'', ''assoc_def'',
     ''classifier_def'', ''datatype_def'', ''struct_def'', ''item_def'',
     ''use_case_def'', ''constraint_def'']"

definition MIN_DOC_LEN :: nat where
  "MIN_DOC_LEN = 5"

definition has_doc :: "Element \<Rightarrow> bool" where
  "has_doc elem = (case doc elem of None \<Rightarrow> False | Some d \<Rightarrow> length (strip d) \<ge> MIN_DOC_LEN)"

text \<open>\<^verbatim>\<open>DocumentationRule._visit\<close>.\<close>

definition documentation_visit :: "Element \<Rightarrow> string \<Rightarrow> Element option \<Rightarrow> Diagnostic list" where
  "documentation_visit elem fname parent =
    (if kind elem \<notin> set DOC_DEF_KINDS \<and> kind elem \<notin> set PACKAGE_KINDS then []
     else if \<not> truthy (name elem) then []
     else if kind elem = ''requirement_def'' \<and> \<not> has_doc elem then
       [diag ''W011'' WARNING
          (ustr (''Requirement definition '' @ [CHR 0x27] @ the (name elem) @ [CHR 0x27]
           @ '' is missing a doc block. '' @ ''Requirements should document their intent.''))
          fname (line elem) (col elem)]
     else if kind elem \<in> set DOC_DEF_KINDS \<and> \<not> has_doc elem then
       [diag ''W010'' INFO
          (ustr (''Definition '' @ [CHR 0x27] @ the (name elem) @ [CHR 0x27] @ '' has no doc block.''))
          fname (line elem) (col elem)]
     else [])"

definition documentation_check :: "File \<Rightarrow> Diagnostic list" where
  "documentation_check f = walk documentation_visit (elements f) (filename f) None"

section \<open>The structure rule\<close>

text \<open>\<^verbatim>\<open>rules/structure.py\<close>.\<close>

definition SUBSTANTIVE_DEFS :: "string list" where
  "SUBSTANTIVE_DEFS =
    [''part_def'', ''action_def'', ''requirement_def'', ''interface_def'',
     ''connection_def'', ''port_def'', ''behavior_def'', ''function_def'',
     ''predicate_def'', ''calc_def'', ''analysis_def'', ''state_def'',
     ''use_case_def'']"

definition TYPED_USAGES :: "string list" where
  "TYPED_USAGES = [''part'', ''port'', ''attribute'', ''item'']"

definition real_body :: "Element \<Rightarrow> Element list" where
  "real_body elem = filter (\<lambda>c. kind c \<notin> set [''doc'', ''comment'']) (body elem)"

definition kinds_in_body :: "Element \<Rightarrow> string set" where
  "kinds_in_body elem = set (map kind (body elem))"

definition has_sub_reqs :: "Element \<Rightarrow> bool" where
  "has_sub_reqs elem = list_ex (\<lambda>c. kind c \<in> set [''requirement'', ''requirement_def'']) (body elem)"

definition has_sub_actions :: "Element \<Rightarrow> bool" where
  "has_sub_actions elem = list_ex (\<lambda>c. kind c = ''action'') (body elem)"

definition has_flow :: "Element \<Rightarrow> bool" where
  "has_flow elem = list_ex (\<lambda>c. kind c \<in> set [''first'', ''then'']) (body elem)"

text \<open>\<^verbatim>\<open>StructureRule._visit\<close>: four independent checks, their findings in this order.\<close>

definition structure_visit :: "Element \<Rightarrow> string \<Rightarrow> Element option \<Rightarrow> Diagnostic list" where
  "structure_visit elem fname parent =
    (if kind elem \<in> set SUBSTANTIVE_DEFS \<and> truthy (name elem) \<and> real_body elem = [] then
       [diag ''W020'' INFO
          (ustr (''Definition '' @ [CHR 0x27] @ the (name elem) @ [CHR 0x27] @ '' has an empty body.''))
          fname (line elem) (col elem)]
     else [])
    @ (if kind elem = ''requirement_def'' \<and> truthy (name elem) then
         (if ''subject'' \<notin> kinds_in_body elem \<and> \<not> has_sub_reqs elem then
            [diag ''W021'' WARNING
               (ustr (''Requirement definition '' @ [CHR 0x27] @ the (name elem) @ [CHR 0x27]
                @ '' has no '' @ [CHR 0x27] @ ''subject'' @ [CHR 0x27] @ '' declaration.''))
               fname (line elem) (col elem)]
          else [])
         @ (if ''require_constraint'' \<notin> kinds_in_body elem \<and> \<not> has_sub_reqs elem then
              [diag ''W022'' INFO
                 (ustr (''Requirement definition '' @ [CHR 0x27] @ the (name elem) @ [CHR 0x27]
                  @ '' has no '' @ [CHR 0x27] @ ''require constraint'' @ [CHR 0x27] @ '' body.''))
                 fname (line elem) (col elem)]
            else [])
       else [])
    @ (if kind elem \<in> set TYPED_USAGES \<and> truthy (name elem) \<and> type_ref elem = None
          \<and> specializes elem = [] then
         [diag ''W023'' INFO
            (ustr (''Usage '' @ [CHR 0x27] @ the (name elem) @ [CHR 0x27] @ '' ('' @ kind elem
             @ '') has no type annotation.''))
            fname (line elem) (col elem)]
       else [])
    @ (if kind elem = ''action_def'' \<and> truthy (name elem) \<and> body elem \<noteq> [] then
         (if has_sub_actions elem \<and> \<not> has_flow elem then
            [diag ''I001'' INFO
               (ustr (''Action definition '' @ [CHR 0x27] @ the (name elem) @ [CHR 0x27]
                @ '' defines sub-actions '' @ ''but has no '' @ [CHR 0x27] @ ''first''
                @ [CHR 0x27] @ ''/'' @ [CHR 0x27] @ ''then'' @ [CHR 0x27] @ '' sequencing.''))
               fname (line elem) (col elem)]
          else [])
       else [])"

definition structure_check :: "File \<Rightarrow> Diagnostic list" where
  "structure_check f = walk structure_visit (elements f) (filename f) None"

section \<open>The scope rule\<close>

text \<open>\<^verbatim>\<open>rules/scope.py\<close>.\<close>

definition NAMED_KINDS :: "string list" where
  "NAMED_KINDS =
    [''part_def'', ''action_def'', ''requirement_def'', ''attribute_def'',
     ''port_def'', ''enum_def'', ''interface_def'', ''connection_def'',
     ''connector_def'', ''allocation_def'', ''metadata_def'', ''behavior_def'',
     ''function_def'', ''predicate_def'', ''calc_def'', ''analysis_def'',
     ''state_def'', ''view_def'', ''viewpoint_def'', ''use_case_def'',
     ''occurrence_def'', ''class_def'', ''assoc_def'', ''classifier_def'',
     ''datatype_def'', ''struct_def'', ''item_def'', ''type_def'',
     ''part'', ''action'', ''requirement'', ''attribute'', ''port'', ''item'',
     ''flow'', ''constraint'', ''subject'']"

text \<open>The condition of the loop body of \<^verbatim>\<open>_check_duplicates\<close>, and the message.\<close>

definition contributes :: "Element \<Rightarrow> bool" where
  "contributes elem = (kind elem \<in> set NAMED_KINDS \<and> truthy (name elem))"

definition dup_key :: "Element \<Rightarrow> string" where
  "dup_key elem = lower (the (name elem))"

definition dup_diag :: "Element \<Rightarrow> Element \<Rightarrow> string \<Rightarrow> Diagnostic" where
  "dup_diag elem first fname =
     diag ''W030'' WARNING
       (ustr (''Duplicate name '' @ [CHR 0x27] @ the (name elem) @ [CHR 0x27] @ '' in this scope ''
        @ ''(first declared at line '' @ str_int (line first) @ '').''))
       fname (line elem) (col elem)"

text \<open>\<^verbatim>\<open>ScopeRule._check_duplicates\<close>. The dictionary \<^verbatim>\<open>seen\<close> is the second argument; the
  source starts every call with the empty one, which \<open>check_duplicates\<close> does.\<close>

fun check_dups :: "Element list \<Rightarrow> (string \<rightharpoonup> Element) \<Rightarrow> string \<Rightarrow> Diagnostic list" where
  "check_dups [] seen fname = []"
| "check_dups (elem # rest) seen fname =
     (if contributes elem then
        (case seen (dup_key elem) of
           Some first \<Rightarrow> [dup_diag elem first fname]
         | None \<Rightarrow> [])
      else [])
     @ (if body elem \<noteq> [] then check_dups (body elem) Map.empty fname else [])
     @ check_dups rest
         (if contributes elem \<and> seen (dup_key elem) = None then seen(dup_key elem \<mapsto> elem)
          else seen)
         fname"

definition check_duplicates :: "Element list \<Rightarrow> string \<Rightarrow> Diagnostic list" where
  "check_duplicates elems fname = check_dups elems Map.empty fname"

text \<open>\<^verbatim>\<open>ScopeRule._collect_imports\<close>: the list \<^verbatim>\<open>out\<close> is returned.\<close>

fun collect_imports :: "Element list \<Rightarrow> Element list" where
  "collect_imports [] = []"
| "collect_imports (elem # rest) =
     (if kind elem = ''import'' then [elem] else [])
     @ collect_imports (body elem) @ collect_imports rest"

text \<open>\<^verbatim>\<open>ScopeRule._collect_references\<close>: the names added to the set \<^verbatim>\<open>out\<close>, as a list; the
  source only tests membership in the set and quantifies over it.\<close>

fun collect_references :: "Element list \<Rightarrow> string list" where
  "collect_references [] = []"
| "collect_references (elem # rest) =
     (if truthy (type_ref elem) then split_cc (the (type_ref elem)) else [])
     @ concat (map split_cc (specializes elem))
     @ collect_references (body elem) @ collect_references rest"

text \<open>The body of the loop over the imports in \<^verbatim>\<open>_check_unused_imports\<close>.\<close>

definition import_referenced :: "Element \<Rightarrow> string list \<Rightarrow> bool" where
  "import_referenced imp used_names =
     (let parts = split_cc (the (import_path imp));
          root = (if parts \<noteq> [] then hd parts else []);
          leaf = (if parts \<noteq> [] then last parts else [])
      in if import_star imp then
           list_ex (\<lambda>nm. startswith nm leaf \<or> startswith nm root) used_names
         else leaf \<in> set used_names \<or> the (import_path imp) \<in> set used_names)"

definition unused_import_diag :: "Element \<Rightarrow> string \<Rightarrow> Diagnostic" where
  "unused_import_diag imp fname =
     diag ''W031'' INFO
       (ustr (''Import '' @ [CHR 0x27] @ the (import_path imp) @ (if import_star imp then ''::*'' else [])
        @ [CHR 0x27] @ '' appears to be unused.''))
       fname (line imp) (col imp)"

definition import_diags :: "Element \<Rightarrow> string list \<Rightarrow> string \<Rightarrow> Diagnostic list" where
  "import_diags imp used_names fname =
     (if \<not> truthy (import_path imp) then []
      else if \<not> import_referenced imp used_names then [unused_import_diag imp fname]
      else [])"

text \<open>\<^verbatim>\<open>ScopeRule._check_unused_imports\<close>.\<close>

definition check_unused_imports :: "File \<Rightarrow> Diagnostic list" where
  "check_unused_imports f =
     (if collect_imports (elements f) = [] then []
      else concat (map (\<lambda>imp. import_diags imp (collect_references (elements f)) (filename f))
                       (collect_imports (elements f))))"

text \<open>\<^verbatim>\<open>ScopeRule.check\<close>.\<close>

definition scope_check :: "File \<Rightarrow> Diagnostic list" where
  "scope_check f = check_duplicates (elements f) (filename f) @ check_unused_imports f"

section \<open>The checker\<close>

text \<open>\<^verbatim>\<open>rules.ALL_RULES\<close>, by the \<^verbatim>\<open>check\<close> method of each rule.\<close>

definition ALL_RULES :: "(File \<Rightarrow> Diagnostic list) list" where
  "ALL_RULES = [naming_check, documentation_check, structure_check, scope_check]"

text \<open>The loop of \<^verbatim>\<open>check_file\<close>: the findings of every rule, filtered by the rule ids
  when a set is given, in the order of the rules.\<close>

definition rule_diags :: "File \<Rightarrow> string set option \<Rightarrow> (File \<Rightarrow> Diagnostic list) \<Rightarrow> Diagnostic list" where
  "rule_diags f rule_ids rule =
     (case rule_ids of
        None \<Rightarrow> rule f
      | Some ids \<Rightarrow> filter (\<lambda>d. rule_id d \<in> ids) (rule f))"

definition collect_diags :: "File \<Rightarrow> string set option \<Rightarrow> Diagnostic list" where
  "collect_diags f rule_ids = concat (map (rule_diags f rule_ids) ALL_RULES)"

text \<open>\<^verbatim>\<open>sorted(diags)\<close> is a stable sort by \<^verbatim>\<open>Diagnostic.__lt__\<close>, that is by the key
  \<open>diag_key\<close> in the lexicographic order of the tuples.\<close>

definition py_sorted :: "Diagnostic list \<Rightarrow> Diagnostic list" where
  "py_sorted ds = sort_key diag_key ds"

text \<open>\<^verbatim>\<open>checker.check_file\<close>.\<close>

definition check_file :: "File \<Rightarrow> string set option \<Rightarrow> Diagnostic list" where
  "check_file f rule_ids = py_sorted (collect_diags f rule_ids)"

section \<open>Tokens\<close>

text \<open>
  \<^verbatim>\<open>token_types.TokenType\<close>. The enumeration has one member for each of the 173 keywords,
  named by the keyword in capitals, and the table \<^verbatim>\<open>KEYWORDS\<close> maps every keyword to its
  member; the model writes the member of the keyword \<open>w\<close> as \<open>KW w\<close>, so that
  \<^verbatim>\<open>TokenType.PART\<close> is \<open>KW ''part''\<close>. The other members are constructors of their own.
\<close>

datatype TokenType =
    KW string
  | BANG_EQ_EQ | COLON_COLON_GT | COLON_GT_GT | EQ_EQ_EQ | BANG_EQ | STAR_STAR | ARROW
  | DOT_DOT | DOT_QUESTION | COLON_COLON | COLON_EQ | COLON_GT | LE | EQ_EQ | FAT_ARROW
  | GE | QUESTION_QUESTION | AT_AT
  | HASH | DOLLAR | PERCENT | AMP | LPAREN | RPAREN | STAR | PLUS | COMMA | MINUS | DOT
  | SLASH | COLON | SEMI | LT | EQ | GT | QUESTION | AT_SIGN | LBRACK | RBRACK | CARET
  | LBRACE | PIPE | RBRACE | TILDE
  | IDENTIFIER | STRING | DOUBLE_STRING | INTEGER | REAL
  | BLOCK_COMMENT | LINE_COMMENT
  | EOF

text \<open>\<^verbatim>\<open>token_types.Token\<close>.\<close>

datatype Token = Token (t_type: TokenType) (t_value: string) (t_line: int) (t_col: int)

text \<open>The keys of \<^verbatim>\<open>token_types.KEYWORDS\<close>.\<close>

definition KEYWORDS :: "string list" where
  "KEYWORDS =
    [''about'', ''abstract'', ''accept'', ''action'', ''actor'', ''after'', ''alias'',
     ''all'', ''allocate'', ''allocation'', ''analysis'', ''and'', ''as'', ''assert'',
     ''assign'', ''assoc'', ''assume'', ''at'', ''attribute'', ''behavior'', ''bind'',
     ''binding'', ''bool'', ''by'', ''calc'', ''case'', ''chains'', ''class'',
     ''classifier'', ''comment'', ''composite'', ''concern'', ''conjugate'',
     ''conjugates'', ''conjugation'', ''connect'', ''connection'', ''connector'',
     ''const'', ''constant'', ''constraint'', ''crosses'', ''datatype'', ''decide'',
     ''def'', ''default'', ''defined'', ''dependency'', ''derived'', ''differences'',
     ''disjoining'', ''disjoint'', ''do'', ''doc'', ''else'', ''end'', ''entry'', ''enum'',
     ''event'', ''exhibit'', ''exit'', ''expose'', ''expr'', ''false'', ''feature'',
     ''featured'', ''featuring'', ''filter'', ''first'', ''flow'', ''for'', ''fork'',
     ''frame'', ''from'', ''function'', ''hastype'', ''if'', ''implies'', ''import'',
     ''in'', ''include'', ''individual'', ''inout'', ''interaction'', ''interface'',
     ''intersects'', ''inv'', ''inverse'', ''inverting'', ''istype'', ''item'', ''join'',
     ''language'', ''library'', ''locale'', ''loop'', ''member'', ''merge'', ''message'',
     ''meta'', ''metaclass'', ''metadata'', ''multiplicity'', ''namespace'', ''new'',
     ''nonunique'', ''not'', ''null'', ''objective'', ''occurrence'', ''of'', ''or'',
     ''ordered'', ''out'', ''package'', ''parallel'', ''part'', ''perform'', ''port'',
     ''portion'', ''predicate'', ''private'', ''protected'', ''public'', ''redefines'',
     ''redefinition'', ''ref'', ''references'', ''render'', ''rendering'', ''rep'',
     ''require'', ''requirement'', ''return'', ''satisfy'', ''send'', ''snapshot'',
     ''specialization'', ''specializes'', ''stakeholder'', ''standard'', ''state'',
     ''step'', ''struct'', ''subclassifier'', ''subject'', ''subset'', ''subsets'',
     ''subtype'', ''succession'', ''terminate'', ''then'', ''timeslice'', ''to'',
     ''transition'', ''true'', ''type'', ''typed'', ''typing'', ''unions'', ''until'',
     ''use'', ''var'', ''variant'', ''variation'', ''verification'', ''verify'', ''via'',
     ''view'', ''viewpoint'', ''when'', ''while'', ''xor'']"

text \<open>\<^verbatim>\<open>KEYWORDS.get(value, TokenType.IDENTIFIER)\<close>.\<close>

definition keyword_lookup :: "string \<Rightarrow> TokenType" where
  "keyword_lookup v = (if v \<in> set KEYWORDS then KW v else IDENTIFIER)"

section \<open>The lexer\<close>

text \<open>\<^verbatim>\<open>lexer.Lexer\<close>: the source text, the position in it, and the line and column of
  that position.\<close>

record Lexer =
  source :: string
  pos :: nat
  l_line :: int
  l_col :: int

text \<open>\<^verbatim>\<open>Lexer.__init__\<close>.\<close>

definition init_lexer :: "string \<Rightarrow> Lexer" where
  "init_lexer s = \<lparr>source = s, pos = 0, l_line = 1, l_col = 1\<rparr>"

text \<open>\<^verbatim>\<open>Lexer._ch\<close> and \<^verbatim>\<open>Lexer._peek\<close>.\<close>

definition ch_at :: "Lexer \<Rightarrow> char option" where
  "ch_at L = (if pos L < length (source L) then Some (source L ! pos L) else None)"

definition peek :: "Lexer \<Rightarrow> nat \<Rightarrow> char option" where
  "peek L offset =
     (if pos L + offset < length (source L) then Some (source L ! (pos L + offset)) else None)"

text \<open>\<^verbatim>\<open>Lexer._advance\<close>. Every call of the source stands behind a test that the position
  is inside the text; at the end of the text, where Python would raise, the model
  returns the state as it is.\<close>

definition advance :: "Lexer \<Rightarrow> Lexer" where
  "advance L =
     (if pos L < length (source L) then
        (if source L ! pos L = CHR 0x0A
         then L\<lparr>pos := pos L + 1, l_line := l_line L + 1, l_col := 1\<rparr>
         else L\<lparr>pos := pos L + 1, l_col := l_col L + 1\<rparr>)
      else L)"

text \<open>\<^verbatim>\<open>Lexer._rest\<close> and the slice \<^verbatim>\<open>self.source[start:self.pos]\<close>.\<close>

definition rest_of :: "Lexer \<Rightarrow> string" where
  "rest_of L = drop (pos L) (source L)"

definition slice :: "string \<Rightarrow> nat \<Rightarrow> nat \<Rightarrow> string" where
  "slice s start stop = take (stop - start) (drop start s)"

lemma advance_source [simp]: "source (advance L) = source L"
  by (simp add: advance_def)

lemma advance_pos: "pos (advance L) = (if pos L < length (source L) then pos L + 1 else pos L)"
  by (simp add: advance_def)

text \<open>The loops \<^verbatim>\<open>while self.pos < len(self.source) and P(self.source[self.pos]):
  self._advance()\<close>.\<close>

function adv_while :: "(char \<Rightarrow> bool) \<Rightarrow> Lexer \<Rightarrow> Lexer" where
  "adv_while P L =
     (if pos L < length (source L) \<and> P (source L ! pos L) then adv_while P (advance L) else L)"
  by pat_completeness auto
termination
  by (relation "measure (\<lambda>(P, L). length (source L) - pos L)") (auto simp: advance_pos)

declare adv_while.simps [simp del]

text \<open>\<^verbatim>\<open>Lexer._skip_whitespace\<close>.\<close>

definition skip_whitespace :: "Lexer \<Rightarrow> Lexer" where
  "skip_whitespace L = adv_while (\<lambda>c. c \<in> set [CHR '' '', CHR 0x09, CHR 0x0D, CHR 0x0A]) L"

text \<open>The loop of the block comment in \<^verbatim>\<open>_next_token\<close>, after the two opening
  characters.\<close>

function block_comment_loop :: "Lexer \<Rightarrow> Lexer" where
  "block_comment_loop L =
     (if pos L < length (source L) then
        (if source L ! pos L = CHR ''*'' \<and> peek L 1 = Some (CHR ''/'') then advance (advance L)
         else block_comment_loop (advance L))
      else L)"
  by pat_completeness auto
termination
  by (relation "measure (\<lambda>L. length (source L) - pos L)") (auto simp: advance_pos)

declare block_comment_loop.simps [simp del]

text \<open>The loop of \<^verbatim>\<open>Lexer._lex_string\<close>, after the opening quote: a backslash takes the
  next character with it.\<close>

function string_loop :: "char \<Rightarrow> Lexer \<Rightarrow> Lexer" where
  "string_loop quote L =
     (if pos L < length (source L) then
        (if source L ! pos L = CHR 0x5C then
           (if pos (advance L) < length (source L) then string_loop quote (advance (advance L))
            else string_loop quote (advance L))
         else if source L ! pos L = quote then advance L
         else string_loop quote (advance L))
      else L)"
  by pat_completeness auto
termination
  by (relation "measure (\<lambda>(q, L). length (source L) - pos L)") (auto simp: advance_pos)

declare string_loop.simps [simp del]

text \<open>\<^verbatim>\<open>Lexer._lex_string\<close>.\<close>

definition lex_string :: "char \<Rightarrow> TokenType \<Rightarrow> int \<Rightarrow> int \<Rightarrow> Lexer \<Rightarrow> Token \<times> Lexer" where
  "lex_string quote tok_type ln cl L =
     (let L' = string_loop quote (advance L)
      in (Token tok_type (slice (source L) (pos L) (pos L')) ln cl, L'))"

text \<open>\<^verbatim>\<open>Lexer._lex_number\<close>: the digits, a fraction when a digit follows the point, an
  exponent; \<open>snd\<close> of the pairs is \<^verbatim>\<open>is_real\<close>.\<close>

definition peek_isdigit :: "Lexer \<Rightarrow> bool" where
  "peek_isdigit L = (case peek L 1 of None \<Rightarrow> False | Some d \<Rightarrow> isdigit d)"

definition number_fraction :: "Lexer \<Rightarrow> Lexer \<times> bool" where
  "number_fraction L =
     (if pos L < length (source L) \<and> source L ! pos L = CHR ''.'' \<and> peek_isdigit L
      then (adv_while isdigit (advance L), True)
      else (L, False))"

definition number_sign :: "Lexer \<Rightarrow> Lexer" where
  "number_sign L =
     (if pos L < length (source L) \<and> source L ! pos L \<in> set ''+-'' then advance L else L)"

definition number_exponent :: "Lexer \<times> bool \<Rightarrow> Lexer \<times> bool" where
  "number_exponent Lr =
     (if pos (fst Lr) < length (source (fst Lr)) \<and> source (fst Lr) ! pos (fst Lr) \<in> set ''eE''
      then (adv_while isdigit (number_sign (advance (fst Lr))), True)
      else Lr)"

definition lex_number :: "int \<Rightarrow> int \<Rightarrow> Lexer \<Rightarrow> Token \<times> Lexer" where
  "lex_number ln cl L =
     (let Lr = number_exponent (number_fraction (adv_while isdigit L))
      in (Token (if snd Lr then REAL else INTEGER) (slice (source L) (pos L) (pos (fst Lr))) ln cl,
          fst Lr))"
text \<open>The operators of \<^verbatim>\<open>_next_token\<close>: the first character \<open>ch\<close> is consumed, \<open>L\<close> is the
  state after it, and the compound forms are tried on the rest of the text, the longer
  ones first.\<close>

definition two :: "Lexer \<Rightarrow> Lexer" where
  "two L = advance (advance L)"

definition SINGLE :: "(char \<times> TokenType) list" where
  "SINGLE =
    [(CHR ''#'', HASH), (CHR ''$'', DOLLAR), (CHR ''%'', PERCENT),
     (CHR ''&'', AMP), (CHR ''('', LPAREN), (CHR '')'', RPAREN),
     (CHR ''+'', PLUS), (CHR '','', COMMA), (CHR ''/'', SLASH),
     (CHR '';'', SEMI), (CHR ''['', LBRACK), (CHR '']'', RBRACK),
     (CHR ''^'', CARET), (CHR ''{'', LBRACE), (CHR ''|'', PIPE),
     (CHR ''}'', RBRACE), (CHR ''~'', TILDE)]"

definition lex_operator :: "char \<Rightarrow> int \<Rightarrow> int \<Rightarrow> Lexer \<Rightarrow> Token \<times> Lexer" where
  "lex_operator ch ln cl L =
    (if ch = CHR ''!'' then
       (if startswith (rest_of L) ''=='' then (Token BANG_EQ_EQ ''!=='' ln cl, two L)
        else if startswith (rest_of L) ''='' then (Token BANG_EQ ''!='' ln cl, advance L)
        else (Token IDENTIFIER ''!'' ln cl, L))
     else if ch = CHR '':'' then
       (if startswith (rest_of L) '':>'' then (Token COLON_COLON_GT ''::>'' ln cl, two L)
        else if startswith (rest_of L) ''>>'' then (Token COLON_GT_GT '':>>'' ln cl, two L)
        else if startswith (rest_of L) '':'' then (Token COLON_COLON ''::'' ln cl, advance L)
        else if startswith (rest_of L) ''>'' then (Token COLON_GT '':>'' ln cl, advance L)
        else if startswith (rest_of L) ''='' then (Token COLON_EQ '':='' ln cl, advance L)
        else (Token COLON '':'' ln cl, L))
     else if ch = CHR ''='' then
       (if startswith (rest_of L) ''=='' then (Token EQ_EQ_EQ ''==='' ln cl, two L)
        else if startswith (rest_of L) ''='' then (Token EQ_EQ ''=='' ln cl, advance L)
        else if startswith (rest_of L) ''>'' then (Token FAT_ARROW ''=>'' ln cl, advance L)
        else (Token EQ ''='' ln cl, L))
     else if ch = CHR ''*'' then
       (if startswith (rest_of L) ''*'' then (Token STAR_STAR ''**'' ln cl, advance L)
        else (Token STAR ''*'' ln cl, L))
     else if ch = CHR ''-'' then
       (if startswith (rest_of L) ''>'' then (Token ARROW ''->'' ln cl, advance L)
        else (Token MINUS ''-'' ln cl, L))
     else if ch = CHR ''.'' then
       (if startswith (rest_of L) ''.'' then (Token DOT_DOT ''..'' ln cl, advance L)
        else if startswith (rest_of L) ''?'' then (Token DOT_QUESTION ''.?'' ln cl, advance L)
        else (Token DOT ''.'' ln cl, L))
     else if ch = CHR ''<'' then
       (if startswith (rest_of L) ''='' then (Token LE ''<='' ln cl, advance L)
        else (Token LT ''<'' ln cl, L))
     else if ch = CHR ''>'' then
       (if startswith (rest_of L) ''='' then (Token GE ''>='' ln cl, advance L)
        else (Token GT ''>'' ln cl, L))
     else if ch = CHR ''?'' then
       (if startswith (rest_of L) ''?'' then (Token QUESTION_QUESTION ''??'' ln cl, advance L)
        else (Token QUESTION ''?'' ln cl, L))
     else if ch = CHR ''@'' then
       (if startswith (rest_of L) ''@'' then (Token AT_AT ''@@'' ln cl, advance L)
        else (Token AT_SIGN ''@'' ln cl, L))
     else
       (case map_of SINGLE ch of
          Some ty \<Rightarrow> (Token ty [ch] ln cl, L)
        | None \<Rightarrow> (Token IDENTIFIER [ch] ln cl, L)))"

text \<open>\<^verbatim>\<open>Lexer._next_token\<close> after the white space: \<open>L\<close> is the state at the first character of
  the token, which exists.\<close>

definition lex_token :: "Lexer \<Rightarrow> Token \<times> Lexer" where
  "lex_token L =
    (let ch = source L ! pos L in
     if ch = CHR ''/'' \<and> peek L 1 = Some (CHR ''/'') then
       (let L' = adv_while (\<lambda>c. c \<noteq> CHR 0x0A) L
        in (Token LINE_COMMENT (slice (source L) (pos L) (pos L')) (l_line L) (l_col L), L'))
     else if ch = CHR ''/'' \<and> peek L 1 = Some (CHR ''*'') then
       (let L' = block_comment_loop (two L)
        in (Token BLOCK_COMMENT (slice (source L) (pos L) (pos L')) (l_line L) (l_col L), L'))
     else if isalpha ch \<or> ch = CHR ''_'' then
       (let L' = adv_while (\<lambda>c. isalnum c \<or> c = CHR ''_'') L;
            v = slice (source L) (pos L) (pos L')
        in (Token (keyword_lookup v) v (l_line L) (l_col L), L'))
     else if isdigit ch then lex_number (l_line L) (l_col L) L
     else if ch = CHR ''.'' \<and> peek_isdigit L then lex_number (l_line L) (l_col L) L
     else if ch = CHR 0x27 then lex_string (CHR 0x27) STRING (l_line L) (l_col L) L
     else if ch = CHR 0x22 then lex_string (CHR 0x22) DOUBLE_STRING (l_line L) (l_col L) L
     else lex_operator ch (l_line L) (l_col L) (advance L))"

text \<open>\<^verbatim>\<open>Lexer._next_token\<close>.\<close>

definition next_token :: "Lexer \<Rightarrow> Token \<times> Lexer" where
  "next_token L =
    (if pos (skip_whitespace L) \<ge> length (source (skip_whitespace L)) then
       (Token EOF [] (l_line (skip_whitespace L)) (l_col (skip_whitespace L)), skip_whitespace L)
     else lex_token (skip_whitespace L))"

text \<open>Every loop keeps the text and never moves the position backwards or past the end.\<close>

definition follows :: "Lexer \<Rightarrow> Lexer \<Rightarrow> bool" where
  "follows L' L = (source L' = source L \<and> pos L \<le> pos L' \<and> (pos L \<le> length (source L) \<longrightarrow> pos L' \<le> length (source L)))"

lemma follows_refl [simp]: "follows L L"
  by (simp add: follows_def)

lemma follows_trans: "follows L'' L' \<Longrightarrow> follows L' L \<Longrightarrow> follows L'' L"
  by (auto simp: follows_def)

lemma follows_advance: "follows (advance L) L"
  by (simp add: follows_def advance_pos)

lemma follows_adv_while: "follows (adv_while P L) L"
proof (induction P L rule: adv_while.induct)
  case (1 P L)
  show ?case
  proof (cases "pos L < length (source L) \<and> P (source L ! pos L)")
    case True
    then have "adv_while P L = adv_while P (advance L)"
      by (subst adv_while.simps) auto
    with 1 True show ?thesis
      using follows_trans [OF _ follows_advance] by simp
  next
    case False
    then have "adv_while P L = L" by (subst adv_while.simps) auto
    then show ?thesis by simp
  qed
qed

lemma follows_block_comment_loop: "follows (block_comment_loop L) L"
proof (induction L rule: block_comment_loop.induct)
  case (1 L)
  show ?case
  proof (cases "pos L < length (source L)")
    case False
    then have "block_comment_loop L = L" by (subst block_comment_loop.simps) auto
    then show ?thesis by simp
  next
    case True
    show ?thesis
    proof (cases "source L ! pos L = CHR ''*'' \<and> peek L 1 = Some (CHR ''/'')")
      case c: True
      with True have "block_comment_loop L = advance (advance L)"
        by (subst block_comment_loop.simps) auto
      then show ?thesis
        using follows_trans [OF follows_advance follows_advance] by simp
    next
      case c: False
      with True have "block_comment_loop L = block_comment_loop (advance L)"
        by (subst block_comment_loop.simps) auto
      with 1 True c show ?thesis
        using follows_trans [OF _ follows_advance] by simp
    qed
  qed
qed

lemma follows_string_loop: "follows (string_loop q L) L"
proof (induction q L rule: string_loop.induct)
  case (1 q L)
  show ?case
  proof (cases "pos L < length (source L)")
    case False
    then have "string_loop q L = L" by (subst string_loop.simps) auto
    then show ?thesis by simp
  next
    case True
    consider (esc2) "source L ! pos L = CHR 0x5C" "pos (advance L) < length (source L)"
      | (esc1) "source L ! pos L = CHR 0x5C" "\<not> pos (advance L) < length (source L)"
      | (close) "source L ! pos L \<noteq> CHR 0x5C" "source L ! pos L = q"
      | (other) "source L ! pos L \<noteq> CHR 0x5C" "source L ! pos L \<noteq> q"
      by blast
    then show ?thesis
    proof cases
      case esc2
      with True have "string_loop q L = string_loop q (advance (advance L))"
        by (subst string_loop.simps) auto
      moreover have "follows (string_loop q (advance (advance L))) (advance (advance L))"
        using 1(1) True esc2 by simp
      ultimately show ?thesis
        using follows_trans [OF _ follows_trans [OF follows_advance follows_advance]] by simp
    next
      case esc1
      with True have "string_loop q L = string_loop q (advance L)"
        by (subst string_loop.simps) auto
      moreover have "follows (string_loop q (advance L)) (advance L)"
        using 1(2) True esc1 by simp
      ultimately show ?thesis
        using follows_trans [OF _ follows_advance] by simp
    next
      case close
      with True have "string_loop q L = advance L"
        by (subst string_loop.simps) auto
      then show ?thesis by (simp add: follows_advance)
    next
      case other
      with True have "string_loop q L = string_loop q (advance L)"
        by (subst string_loop.simps) auto
      moreover have "follows (string_loop q (advance L)) (advance L)"
        using 1(3) True other by simp
      ultimately show ?thesis
        using follows_trans [OF _ follows_advance] by simp
    qed
  qed
qed
lemma adv_while_strict:
  assumes "pos L < length (source L)" "P (source L ! pos L)"
  shows "pos L < pos (adv_while P L)"
proof -
  have "adv_while P L = adv_while P (advance L)"
    using assms by (subst adv_while.simps) auto
  moreover have "pos L < pos (advance L)"
    using assms by (simp add: advance_pos)
  moreover have "pos (advance L) \<le> pos (adv_while P (advance L))"
    using follows_adv_while [of P "advance L"] by (simp add: follows_def)
  ultimately show ?thesis by simp
qed

lemma follows_two: "follows (two L) L"
  unfolding two_def by (rule follows_trans [OF follows_advance follows_advance])

lemma follows_number_fraction: "follows (fst (number_fraction L)) L"
  unfolding number_fraction_def
  using follows_trans [OF follows_adv_while follows_advance] by simp

lemma follows_number_sign: "follows (number_sign L) L"
  by (simp add: number_sign_def follows_advance)

lemma follows_number_exponent: "follows (fst (number_exponent Lr)) (fst Lr)"
  unfolding number_exponent_def
  using follows_trans [OF follows_adv_while follows_trans [OF follows_number_sign follows_advance]]
  by simp

lemma follows_lex_operator: "follows (snd (lex_operator ch ln cl L)) L"
  unfolding lex_operator_def
  by (simp add: follows_advance follows_two split: option.splits)

lemma isalpha_isalnum: "isalpha c \<Longrightarrow> isalnum c"
  by (simp add: isalnum_def)

lemma lex_token_progress:
  assumes "pos L < length (source L)"
  shows "source (snd (lex_token L)) = source L \<and> pos L < pos (snd (lex_token L))"
proof -
  let ?ch = "source L ! pos L"
  let ?A1 = "?ch = CHR ''/'' \<and> peek L 1 = Some (CHR ''/'')"
  let ?A2 = "?ch = CHR ''/'' \<and> peek L 1 = Some (CHR ''*'')"
  let ?A3 = "isalpha ?ch \<or> ?ch = CHR ''_''"
  let ?A4 = "isdigit ?ch \<or> (?ch = CHR ''.'' \<and> peek_isdigit L)"
  let ?A5 = "?ch = CHR 0x27"
  let ?A6 = "?ch = CHR 0x22"
  consider (line) ?A1 | (block) "\<not> ?A1" ?A2 | (ident) "\<not> ?A1" "\<not> ?A2" ?A3
    | (num) "\<not> ?A1" "\<not> ?A2" "\<not> ?A3" ?A4
    | (squote) "\<not> ?A1" "\<not> ?A2" "\<not> ?A3" "\<not> ?A4" ?A5
    | (dquote) "\<not> ?A1" "\<not> ?A2" "\<not> ?A3" "\<not> ?A4" "\<not> ?A5" ?A6
    | (op) "\<not> ?A1" "\<not> ?A2" "\<not> ?A3" "\<not> ?A4" "\<not> ?A5" "\<not> ?A6"
    by blast
  then show ?thesis
  proof cases
    case line
    then have "snd (lex_token L) = adv_while (\<lambda>c. c \<noteq> CHR 0x0A) L"
      by (simp add: lex_token_def Let_def)
    moreover have "?ch \<noteq> CHR 0x0A" using line by simp
    ultimately show ?thesis
      using adv_while_strict [OF assms, of "\<lambda>c. c \<noteq> CHR 0x0A"]
        follows_adv_while [of "\<lambda>c. c \<noteq> CHR 0x0A" L]
      by (simp add: follows_def)
  next
    case block
    then have e: "snd (lex_token L) = block_comment_loop (two L)"
      by (auto simp: lex_token_def Let_def)
    have "pos L < pos (two L)"
      using assms by (simp add: two_def advance_pos)
    then show ?thesis
      unfolding e using follows_block_comment_loop [of "two L"] follows_two [of L]
      by (auto simp: follows_def)
  next
    case ident
    then have e: "snd (lex_token L) = adv_while (\<lambda>c. isalnum c \<or> c = CHR ''_'') L"
      by (auto simp: lex_token_def Let_def)
    have "isalnum ?ch \<or> ?ch = CHR ''_''"
      using ident(3) isalpha_isalnum by blast
    then show ?thesis
      unfolding e
      using adv_while_strict [OF assms, of "\<lambda>c. isalnum c \<or> c = CHR ''_''"]
        follows_adv_while [of "\<lambda>c. isalnum c \<or> c = CHR ''_''" L]
      by (simp add: follows_def)
  next
    case num
    have "lex_token L = lex_number (l_line L) (l_col L) L"
      unfolding lex_token_def Let_def using num by auto
    then have e: "snd (lex_token L) = fst (number_exponent (number_fraction (adv_while isdigit L)))"
      by (simp add: lex_number_def Let_def)
    let ?L1 = "adv_while isdigit L"
    have f1: "follows ?L1 L" by (rule follows_adv_while)
    have f2: "follows (fst (number_fraction ?L1)) ?L1" by (rule follows_number_fraction)
    have f3: "follows (fst (number_exponent (number_fraction ?L1))) (fst (number_fraction ?L1))"
      by (rule follows_number_exponent)
    have strict: "pos L < pos (fst (number_fraction ?L1))"
    proof (cases "isdigit ?ch")
      case True
      then have "pos L < pos ?L1" using adv_while_strict [OF assms] by simp
      with f2 show ?thesis by (simp add: follows_def)
    next
      case False
      with num(4) have d: "?ch = CHR ''.''" "peek_isdigit L" by simp_all
      from False assms have same: "?L1 = L" by (subst adv_while.simps) simp
      have "fst (number_fraction L) = adv_while isdigit (advance L)"
        using d assms by (simp add: number_fraction_def)
      moreover have "pos L < pos (advance L)" using assms by (simp add: advance_pos)
      moreover have "pos (advance L) \<le> pos (adv_while isdigit (advance L))"
        using follows_adv_while [of isdigit "advance L"] by (simp add: follows_def)
      ultimately show ?thesis using same by simp
    qed
    show ?thesis
      unfolding e using f1 f2 f3 strict by (simp add: follows_def)
  next
    case squote
    have "lex_token L = lex_string (CHR 0x27) STRING (l_line L) (l_col L) L"
      unfolding lex_token_def Let_def using squote by auto
    then have e: "snd (lex_token L) = string_loop (CHR 0x27) (advance L)"
      by (simp add: lex_string_def Let_def)
    show ?thesis
      unfolding e using follows_string_loop [of "CHR 0x27" "advance L"] assms
      by (simp add: follows_def advance_pos)
  next
    case dquote
    have "lex_token L = lex_string (CHR 0x22) DOUBLE_STRING (l_line L) (l_col L) L"
      unfolding lex_token_def Let_def using dquote by auto
    then have e: "snd (lex_token L) = string_loop (CHR 0x22) (advance L)"
      by (simp add: lex_string_def Let_def)
    show ?thesis
      unfolding e using follows_string_loop [of "CHR 0x22" "advance L"] assms
      by (simp add: follows_def advance_pos)
  next
    case op
    have e: "lex_token L = lex_operator ?ch (l_line L) (l_col L) (advance L)"
      unfolding lex_token_def Let_def using op by auto
    show ?thesis
      unfolding e
      using follows_lex_operator [of ?ch "l_line L" "l_col L" "advance L"] assms
      by (simp add: follows_def advance_pos)
  qed
qed

lemma lex_token_not_EOF: "t_type (fst (lex_token L)) \<noteq> EOF"
  by (simp add: lex_token_def Let_def lex_number_def lex_string_def lex_operator_def
      keyword_lookup_def SINGLE_def)

lemma follows_skip_whitespace: "follows (skip_whitespace L) L"
  unfolding skip_whitespace_def by (rule follows_adv_while)

lemma next_token_progress:
  assumes "next_token L = (tok, L')" "t_type tok \<noteq> EOF"
  shows "length (source L') - pos L' < length (source L) - pos L"
proof -
  let ?W = "skip_whitespace L"
  have inside: "pos ?W < length (source ?W)"
    using assms by (auto simp: next_token_def split: if_splits)
  then have "L' = snd (lex_token ?W)"
    using assms(1) by (simp add: next_token_def)
  then have "source L' = source ?W" "pos ?W < pos L'"
    using lex_token_progress [OF inside] by simp_all
  moreover have "source ?W = source L" "pos L \<le> pos ?W"
    using follows_skip_whitespace [of L] by (simp_all add: follows_def)
  ultimately show ?thesis using inside by simp
qed

text \<open>\<^verbatim>\<open>Lexer.tokenize\<close>: tokens are taken until the end-of-stream token, which is kept.\<close>

function tokenize_from :: "Lexer \<Rightarrow> Token list" where
  "tokenize_from L =
     (case next_token L of
        (tok, L') \<Rightarrow> if t_type tok = EOF then [tok] else tok # tokenize_from L')"
  by pat_completeness auto
termination
  by (relation "measure (\<lambda>L. length (source L) - pos L)") (auto dest: next_token_progress [OF sym])

declare tokenize_from.simps [simp del]

definition tokenize :: "string \<Rightarrow> Token list" where
  "tokenize s = tokenize_from (init_lexer s)"

section \<open>The parser\<close>

text \<open>\<^verbatim>\<open>parser.py\<close>: the keyword sets, by the spelling of the keywords.\<close>

definition VISIBILITY :: "TokenType list" where
  "VISIBILITY = map KW [''private'', ''protected'', ''public'']"

definition PREFIX_MODIFIERS :: "TokenType list" where
  "PREFIX_MODIFIERS = map KW
    [''abstract'', ''ref'', ''var'', ''derived'', ''ordered'', ''nonunique'', ''composite'',
     ''portion'', ''library'', ''individual'', ''variation'', ''variant'', ''standard'',
     ''const'', ''constant'']"

definition ELEMENT_KEYWORDS :: "TokenType list" where
  "ELEMENT_KEYWORDS = map KW
    [''package'', ''namespace'',
     ''part'', ''action'', ''requirement'',
     ''attribute'', ''port'', ''enum'',
     ''interface'', ''connection'', ''connector'',
     ''allocation'', ''metadata'', ''behavior'',
     ''function'', ''predicate'', ''calc'',
     ''analysis'', ''state'', ''rendering'',
     ''view'', ''viewpoint'', ''occurrence'',
     ''interaction'', ''class'', ''assoc'',
     ''classifier'', ''datatype'', ''struct'',
     ''item'', ''type'', ''multiplicity'',
     ''feature'', ''flow'', ''succession'',
     ''transition'', ''frame'', ''concern'',
     ''stakeholder'', ''constraint'',
     ''actor'', ''subject'', ''objective'',
     ''step'', ''filter'', ''fork'',
     ''join'', ''merge'', ''decide'',
     ''verification'']"

definition BODY_ONLY_KEYWORDS :: "TokenType list" where
  "BODY_ONLY_KEYWORDS = map KW
    [''perform'', ''exhibit'', ''satisfy'',
     ''verify'', ''expose'', ''send'',
     ''accept'', ''assert'', ''include'',
     ''bind'', ''alias'', ''dependency'',
     ''specialization'', ''conjugation'', ''typing'',
     ''featuring'', ''disjoining'', ''redefines'',
     ''subsets'', ''member'',
     ''entry'', ''do'', ''exit'',
     ''when'', ''else'', ''if'']"

definition SEQUENCE_KEYWORDS :: "TokenType list" where
  "SEQUENCE_KEYWORDS = map KW [''first'', ''then'']"

definition DIRECTION_KEYWORDS :: "TokenType list" where
  "DIRECTION_KEYWORDS = map KW [''in'', ''out'', ''inout'']"

text \<open>
  The state of \<^verbatim>\<open>parser.Parser\<close> is the token list, which \<^verbatim>\<open>__init__\<close> fixes, and the
  position \<^verbatim>\<open>_pos\<close> in it. Every function below takes the tokens \<open>ts\<close> and the position
  and returns the new position with its result.

  \<^verbatim>\<open>Parser._cur\<close>, \<^verbatim>\<open>_peek\<close>, \<^verbatim>\<open>_at\<close>; \<^verbatim>\<open>_eat\<close> gives the position after the token when
  \<open>at\<close> holds.
\<close>

definition cur :: "Token list \<Rightarrow> nat \<Rightarrow> Token" where
  "cur ts p = (if p < length ts then ts ! p else Token EOF [] 0 0)"

definition peek_tok :: "Token list \<Rightarrow> nat \<Rightarrow> Token" where
  "peek_tok ts p = (if p + 1 < length ts then ts ! (p + 1) else Token EOF [] 0 0)"

definition at :: "Token list \<Rightarrow> nat \<Rightarrow> TokenType list \<Rightarrow> bool" where
  "at ts p tys = (t_type (cur ts p) \<in> set tys)"

definition eat :: "Token list \<Rightarrow> nat \<Rightarrow> TokenType list \<Rightarrow> nat" where
  "eat ts p tys = (if at ts p tys then p + 1 else p)"

lemma at_inside: "at ts p tys \<Longrightarrow> EOF \<notin> set tys \<Longrightarrow> p < length ts"
  by (auto simp: at_def cur_def split: if_splits)

lemma not_at_EOF_inside: "\<not> at ts p (EOF # tys) \<Longrightarrow> p < length ts"
  by (auto simp: at_def cur_def split: if_splits)

lemma eat_ge: "p \<le> eat ts p tys"
  by (simp add: eat_def)

text \<open>\<^verbatim>\<open>_strip_comment\<close>.\<close>

definition strip_comment :: "string \<Rightarrow> string" where
  "strip_comment text =
     (let s0 = strip text;
          s1 = (if startswith s0 ''/*'' then drop 2 s0 else s0);
          s2 = (if endswith s1 ''*/'' then take (length s1 - 2) s1 else s1);
          lines = map (\<lambda>ln. strip (lstrip_pred (\<lambda>c. c = CHR ''*'') (strip ln))) (splitlines s2)
      in strip (join [CHR 0x0A] (filter (\<lambda>ln. ln \<noteq> []) lines)))"

text \<open>\<^verbatim>\<open>Parser._parse_name_token\<close>: the quotes of a quoted name are stripped.\<close>

definition parse_name_token :: "Token list \<Rightarrow> nat \<Rightarrow> string option \<times> nat" where
  "parse_name_token ts p =
     (if at ts p [IDENTIFIER] then (Some (t_value (cur ts p)), p + 1)
      else if at ts p [STRING] then
        (Some (strip_pred (\<lambda>c. c = CHR 0x27) (t_value (cur ts p))), p + 1)
      else (None, p))"

text \<open>\<^verbatim>\<open>Parser._parse_identification\<close>; \<^verbatim>\<open>_eat_identification\<close> is its position.\<close>

definition parse_identification :: "Token list \<Rightarrow> nat \<Rightarrow> string option \<times> nat" where
  "parse_identification ts p =
     (if at ts p [LT] then
        parse_name_token ts (eat ts (snd (parse_name_token ts (p + 1))) [GT])
      else parse_name_token ts p)"

definition eat_identification :: "Token list \<Rightarrow> nat \<Rightarrow> nat" where
  "eat_identification ts p = snd (parse_identification ts p)"

lemma parse_name_token_ge: "p \<le> snd (parse_name_token ts p)"
  by (simp add: parse_name_token_def)

lemma parse_identification_ge: "p \<le> snd (parse_identification ts p)"
proof -
  have "p + 1 \<le> snd (parse_name_token ts (eat ts (snd (parse_name_token ts (p + 1))) [GT]))"
    using parse_name_token_ge [of "p + 1" ts]
      eat_ge [of "snd (parse_name_token ts (p + 1))" ts "[GT]"]
      parse_name_token_ge [of "eat ts (snd (parse_name_token ts (p + 1))) [GT]" ts]
    by linarith
  then show ?thesis
    by (simp add: parse_identification_def parse_name_token_ge)
qed

text \<open>\<^verbatim>\<open>Parser._parse_qualified_name\<close>: the loop over the separators, with the parts
  collected so far, and the function itself.\<close>

function qualified_name_loop :: "Token list \<Rightarrow> string list \<Rightarrow> nat \<Rightarrow> string list \<times> nat" where
  "qualified_name_loop ts parts p =
     (if at ts p [COLON_COLON, DOT] then
        (case parse_name_token ts (p + 1) of
           (seg, p') \<Rightarrow>
             if truthy seg then qualified_name_loop ts (parts @ [the seg]) p'
             else if at ts p' [STAR] then qualified_name_loop ts (parts @ [''*'']) (p' + 1)
             else qualified_name_loop ts parts p')
      else (parts, p))"
  by pat_completeness auto
termination
proof (relation "measure (\<lambda>(ts, parts, p). length ts - p)", goal_cases)
  case 1
  show ?case by simp
next
  case 2
  then show ?case
    using at_inside [of _ _ "[COLON_COLON, DOT]"] parse_name_token_ge
    by (fastforce simp: parse_name_token_def split: if_splits)
next
  case 3
  then show ?case
    using at_inside [of _ _ "[COLON_COLON, DOT]"] parse_name_token_ge
    by (fastforce simp: parse_name_token_def split: if_splits)
next
  case 4
  then show ?case
    using at_inside [of _ _ "[COLON_COLON, DOT]"] parse_name_token_ge
    by (fastforce simp: parse_name_token_def split: if_splits)
qed

declare qualified_name_loop.simps [simp del]

definition parse_qualified_name :: "Token list \<Rightarrow> nat \<Rightarrow> string \<times> nat" where
  "parse_qualified_name ts p =
     (case parse_name_token ts p of
        (tok, p') \<Rightarrow>
          (case qualified_name_loop ts (if truthy tok then [the tok] else []) p' of
             (parts, p'') \<Rightarrow> (join ''::'' parts, p'')))"

text \<open>\<^verbatim>\<open>Parser._parse_multiplicity\<close>: the loop up to the closing bracket, and the function.\<close>

function multiplicity_loop :: "Token list \<Rightarrow> string list \<Rightarrow> nat \<Rightarrow> string list \<times> nat" where
  "multiplicity_loop ts parts p =
     (if \<not> at ts p [RBRACK, EOF] then multiplicity_loop ts (parts @ [t_value (cur ts p)]) (p + 1)
      else (parts, p))"
  by pat_completeness auto
termination
  by (relation "measure (\<lambda>(ts, parts, p). length ts - p)")
     (auto simp: at_def cur_def split: if_splits)

declare multiplicity_loop.simps [simp del]

definition parse_multiplicity :: "Token list \<Rightarrow> nat \<Rightarrow> string \<times> nat" where
  "parse_multiplicity ts p =
     (if \<not> at ts p [LBRACK] then ([], p)
      else (case multiplicity_loop ts [] (p + 1) of
              (parts, p') \<Rightarrow> (''['' @ concat parts @ '']'', eat ts p' [RBRACK])))"

text \<open>\<^verbatim>\<open>Parser._skip_block\<close>, from the depth \<open>depth\<close>.\<close>

function skip_block_loop :: "Token list \<Rightarrow> nat \<Rightarrow> nat \<Rightarrow> nat" where
  "skip_block_loop ts depth p =
     (if \<not> at ts p [EOF] \<and> depth > 0 then
        (if at ts p [LBRACE] then skip_block_loop ts (depth + 1) (p + 1)
         else if at ts p [RBRACE] then skip_block_loop ts (depth - 1) (p + 1)
         else skip_block_loop ts depth (p + 1))
      else p)"
  by pat_completeness auto
termination
  by (relation "measure (\<lambda>(ts, depth, p). length ts - p)")
     (auto simp: at_def cur_def split: if_splits)

declare skip_block_loop.simps [simp del]

definition skip_block :: "Token list \<Rightarrow> nat \<Rightarrow> nat" where
  "skip_block ts p = skip_block_loop ts 1 p"

text \<open>\<^verbatim>\<open>Parser._skip_to_end\<close>: the position after it; it returns no element.\<close>

function skip_to_end_loop :: "Token list \<Rightarrow> nat \<Rightarrow> nat" where
  "skip_to_end_loop ts p =
     (if \<not> at ts p [SEMI, LBRACE, RBRACE, EOF] then skip_to_end_loop ts (p + 1) else p)"
  by pat_completeness auto
termination
  by (relation "measure (\<lambda>(ts, p). length ts - p)")
     (auto simp: at_def cur_def split: if_splits)

declare skip_to_end_loop.simps [simp del]

definition skip_to_end :: "Token list \<Rightarrow> nat \<Rightarrow> nat" where
  "skip_to_end ts p =
     (let p' = skip_to_end_loop ts p in
      if at ts p' [SEMI] then p' + 1
      else if at ts p' [LBRACE] then skip_block ts (p' + 1)
      else p')"

text \<open>\<^verbatim>\<open>Parser._skip_expression\<close>.\<close>

function skip_expression_loop :: "Token list \<Rightarrow> nat \<Rightarrow> nat \<Rightarrow> nat" where
  "skip_expression_loop ts depth p =
     (if \<not> at ts p [EOF] then
        (if at ts p [LBRACE, LPAREN, LBRACK] then skip_expression_loop ts (depth + 1) (p + 1)
         else if at ts p [RBRACE, RPAREN, RBRACK] then
           (if depth = 0 then p else skip_expression_loop ts (depth - 1) (p + 1))
         else if at ts p [SEMI] \<and> depth = 0 then p + 1
         else skip_expression_loop ts depth (p + 1))
      else p)"
  by pat_completeness auto
termination
  by (relation "measure (\<lambda>(ts, depth, p). length ts - p)")
     (auto simp: at_def cur_def split: if_splits)

declare skip_expression_loop.simps [simp del]

definition skip_expression :: "Token list \<Rightarrow> nat \<Rightarrow> nat" where
  "skip_expression ts p = skip_expression_loop ts 0 p"
lemma qualified_name_loop_ge: "p \<le> snd (qualified_name_loop ts parts p)"
proof (induction ts parts p rule: qualified_name_loop.induct)
  case (1 ts parts p)
  show ?case
  proof (cases "at ts p [COLON_COLON, DOT]")
    case False
    then show ?thesis by (subst qualified_name_loop.simps) simp
  next
    case True
    obtain seg p' where s: "parse_name_token ts (p + 1) = (seg, p')"
      by (cases "parse_name_token ts (p + 1)")
    then have ge: "p + 1 \<le> p'"
      using parse_name_token_ge [of "p + 1" ts] by simp
    show ?thesis
    proof (cases "truthy seg")
      case t: True
      have "p' \<le> snd (qualified_name_loop ts (parts @ [the seg]) p')"
        using 1(1) [OF True s [symmetric] t] .
      with ge True s t show ?thesis
        by (subst qualified_name_loop.simps) simp
    next
      case f: False
      show ?thesis
      proof (cases "at ts p' [STAR]")
        case st: True
        have "p' + 1 \<le> snd (qualified_name_loop ts (parts @ [''*'']) (p' + 1))"
          using 1(2) [OF True s [symmetric] f st] .
        with ge True s f st show ?thesis
          by (subst qualified_name_loop.simps) simp
      next
        case ns: False
        have "p' \<le> snd (qualified_name_loop ts parts p')"
          using 1(3) [OF True s [symmetric] f ns] .
        with ge True s f ns show ?thesis
          by (subst qualified_name_loop.simps) simp
      qed
    qed
  qed
qed

lemma parse_qualified_name_ge: "p \<le> snd (parse_qualified_name ts p)"
proof -
  obtain tok p' where s: "parse_name_token ts p = (tok, p')"
    by (cases "parse_name_token ts p")
  then have "p \<le> p'" using parse_name_token_ge [of p ts] by simp
  moreover have "p' \<le> snd (qualified_name_loop ts (if truthy tok then [the tok] else []) p')"
    by (rule qualified_name_loop_ge)
  moreover have "snd (parse_qualified_name ts p)
      = snd (qualified_name_loop ts (if truthy tok then [the tok] else []) p')"
    by (simp add: parse_qualified_name_def s split: prod.splits)
  ultimately show ?thesis by simp
qed

lemma comma_step:
  assumes "at ts p [COMMA]" "(q, p') = parse_qualified_name ts (p + 1)"
  shows "length ts - p' < length ts - p"
proof -
  have "p < length ts" using assms(1) by (rule at_inside) simp
  moreover have "p + 1 \<le> p'"
    using parse_qualified_name_ge [of "p + 1" ts] assms(2) [symmetric] by simp
  ultimately show ?thesis by simp
qed

lemma import_step:
  assumes "at ts p [COLON_COLON]" "(n, p') = parse_name_token ts (p + 1)"
  shows "length ts - p' < length ts - p"
proof -
  have "p < length ts" using assms(1) by (rule at_inside) simp
  moreover have "p + 1 \<le> p'"
    using parse_name_token_ge [of "p + 1" ts] assms(2) [symmetric] by simp
  ultimately show ?thesis by simp
qed

text \<open>The loops \<^verbatim>\<open>while self._eat(TokenType.COMMA): ... self._parse_qualified_name()\<close> of
  the specialisations and of \<^verbatim>\<open>comment about\<close>, with the names read so far.\<close>

function comma_loop :: "Token list \<Rightarrow> string list \<Rightarrow> nat \<Rightarrow> string list \<times> nat" where
  "comma_loop ts names p =
     (if at ts p [COMMA] then
        (case parse_qualified_name ts (p + 1) of (q, p') \<Rightarrow> comma_loop ts (names @ [q]) p')
      else (names, p))"
  by pat_completeness auto
termination
  by (relation "measure (\<lambda>(ts, names, p). length ts - p)") (auto intro: comma_step)

declare comma_loop.simps [simp del]

text \<open>The loop of the path in \<^verbatim>\<open>_parse_import\<close>.\<close>

function import_loop :: "Token list \<Rightarrow> string list \<Rightarrow> nat \<Rightarrow> string list \<times> nat" where
  "import_loop ts parts p =
     (if at ts p [COLON_COLON] then
        (case parse_name_token ts (p + 1) of
           (n, p') \<Rightarrow> import_loop ts (if truthy n then parts @ [the n] else parts) p')
      else (parts, p))"
  by pat_completeness auto
termination
  by (relation "measure (\<lambda>(ts, parts, p). length ts - p)") (auto intro: import_step)

declare import_loop.simps [simp del]

text \<open>The loop of the prefix modifiers and the loop of the pending block comments.\<close>

function modifiers_loop :: "Token list \<Rightarrow> string list \<Rightarrow> nat \<Rightarrow> string list \<times> nat" where
  "modifiers_loop ts mods p =
     (if at ts p PREFIX_MODIFIERS then modifiers_loop ts (mods @ [t_value (cur ts p)]) (p + 1)
      else (mods, p))"
  by pat_completeness auto
termination
  by (relation "measure (\<lambda>(ts, mods, p). length ts - p)")
     (auto simp: at_def cur_def PREFIX_MODIFIERS_def split: if_splits)

declare modifiers_loop.simps [simp del]

function pending_loop :: "Token list \<Rightarrow> Token option \<Rightarrow> nat \<Rightarrow> Token option \<times> nat" where
  "pending_loop ts pending p =
     (if at ts p [BLOCK_COMMENT] then pending_loop ts (Some (cur ts p)) (p + 1)
      else (pending, p))"
  by pat_completeness auto
termination
  by (relation "measure (\<lambda>(ts, pending, p). length ts - p)")
     (auto simp: at_def cur_def split: if_splits)

declare pending_loop.simps [simp del]

text \<open>The constructor \<^verbatim>\<open>Element(kind=..., is_def=..., name=..., type_ref=..., modifiers=...,
  line=..., col=...)\<close> with the defaults of the other fields, and the assignments to the
  fields of an element.\<close>

definition new_element :: "string \<Rightarrow> bool \<Rightarrow> string option \<Rightarrow> string option \<Rightarrow> string list
    \<Rightarrow> int \<Rightarrow> int \<Rightarrow> Element" where
  "new_element k d n t mods ln cl = Element k d n t [] None [] None mods ln cl None False"

definition set_type_ref :: "string option \<Rightarrow> Element \<Rightarrow> Element" where
  "set_type_ref v e = Element (kind e) (is_def e) (name e) v (specializes e) (multiplicity e)
     (body e) (doc e) (modifiers e) (line e) (col e) (import_path e) (import_star e)"

definition set_specializes :: "string list \<Rightarrow> Element \<Rightarrow> Element" where
  "set_specializes v e = Element (kind e) (is_def e) (name e) (type_ref e) v (multiplicity e)
     (body e) (doc e) (modifiers e) (line e) (col e) (import_path e) (import_star e)"

definition set_multiplicity :: "string option \<Rightarrow> Element \<Rightarrow> Element" where
  "set_multiplicity v e = Element (kind e) (is_def e) (name e) (type_ref e) (specializes e) v
     (body e) (doc e) (modifiers e) (line e) (col e) (import_path e) (import_star e)"

definition set_body :: "Element list \<Rightarrow> Element \<Rightarrow> Element" where
  "set_body v e = Element (kind e) (is_def e) (name e) (type_ref e) (specializes e)
     (multiplicity e) v (doc e) (modifiers e) (line e) (col e) (import_path e) (import_star e)"

definition set_doc :: "string option \<Rightarrow> Element \<Rightarrow> Element" where
  "set_doc v e = Element (kind e) (is_def e) (name e) (type_ref e) (specializes e)
     (multiplicity e) (body e) v (modifiers e) (line e) (col e) (import_path e) (import_star e)"

definition set_import :: "string \<Rightarrow> bool \<Rightarrow> Element \<Rightarrow> Element" where
  "set_import path star e = Element (kind e) (is_def e) (name e) (type_ref e) (specializes e)
     (multiplicity e) (body e) (doc e) (modifiers e) (line e) (col e) (Some path) star"

text \<open>\<^verbatim>\<open>if pending is not None: elem.doc = _strip_comment(pending.value)\<close>.\<close>

definition attach_pending :: "Token option \<Rightarrow> Element \<Rightarrow> Element" where
  "attach_pending pending e =
     (case pending of None \<Rightarrow> e | Some tok \<Rightarrow> set_doc (Some (strip_comment (t_value tok))) e)"

text \<open>\<^verbatim>\<open>Parser._parse_import\<close>, at the keyword \<^verbatim>\<open>import\<close>.\<close>

definition parse_import :: "Token list \<Rightarrow> int \<Rightarrow> int \<Rightarrow> string list \<Rightarrow> nat \<Rightarrow> Element \<times> nat" where
  "parse_import ts ln cl mods p =
     (case parse_name_token ts (eat ts (p + 1) [KW ''all'']) of
        (nm, p1) \<Rightarrow>
          (case import_loop ts (if truthy nm then [the nm] else []) p1 of
             (parts, p2) \<Rightarrow>
               (let star1 = (parts \<noteq> [] \<and> last parts = ''*'');
                    parts' = (if star1 then butlast parts else parts);
                    is_star = (star1 \<or> at ts p2 [STAR]);
                    p3 = eat ts p2 [STAR];
                    p4 = (if at ts p3 [LBRACE] then skip_block ts (p3 + 1) else eat ts p3 [SEMI])
                in (set_import (join ''::'' parts') is_star
                      (new_element ''import'' False None None mods ln cl), p4))))"

text \<open>The optional \<^verbatim>\<open>locale "..."\<close> of \<^verbatim>\<open>doc\<close> and \<^verbatim>\<open>comment\<close>.\<close>

definition eat_locale :: "Token list \<Rightarrow> nat \<Rightarrow> nat" where
  "eat_locale ts p = (if at ts p [KW ''locale''] then eat ts (p + 1) [DOUBLE_STRING] else p)"

text \<open>\<^verbatim>\<open>Parser._parse_doc\<close>, at the keyword \<^verbatim>\<open>doc\<close>.\<close>

definition parse_doc :: "Token list \<Rightarrow> int \<Rightarrow> int \<Rightarrow> Token option \<Rightarrow> nat \<Rightarrow> Element \<times> nat" where
  "parse_doc ts ln cl pending p =
     (let p1 = eat_locale ts (eat_identification ts (p + 1)) in
      if at ts p1 [BLOCK_COMMENT] then
        (set_doc (Some (strip_comment (t_value (cur ts p1))))
           (new_element ''doc'' False None None [] ln cl), p1 + 1)
      else (attach_pending pending (new_element ''doc'' False None None [] ln cl), p1))"

text \<open>\<^verbatim>\<open>Parser._parse_comment_kw\<close>, at the keyword \<^verbatim>\<open>comment\<close>.\<close>

definition parse_comment_kw :: "Token list \<Rightarrow> int \<Rightarrow> int \<Rightarrow> nat \<Rightarrow> Element \<times> nat" where
  "parse_comment_kw ts ln cl p =
     (let p1 = eat_identification ts (p + 1);
          p2 = (if at ts p1 [KW ''about'']
                then snd (comma_loop ts [] (snd (parse_qualified_name ts (p1 + 1)))) else p1);
          p3 = eat_locale ts p2
      in if at ts p3 [BLOCK_COMMENT] then
           (set_doc (Some (strip_comment (t_value (cur ts p3))))
              (new_element ''comment'' False None None [] ln cl), p3 + 1)
         else (new_element ''comment'' False None None [] ln cl, p3))"

text \<open>\<^verbatim>\<open>Parser._parse_require_or_assume\<close>, at the keyword \<^verbatim>\<open>require\<close> or \<^verbatim>\<open>assume\<close>.\<close>

definition parse_require_or_assume :: "Token list \<Rightarrow> int \<Rightarrow> int \<Rightarrow> string list \<Rightarrow> nat
    \<Rightarrow> Element option \<times> nat" where
  "parse_require_or_assume ts ln cl mods p =
     (if at ts (p + 1) [KW ''constraint''] then
        (Some (new_element ''require_constraint'' False None None mods ln cl),
         if at ts (p + 2) [LBRACE] then skip_block ts (p + 3) else eat ts (p + 2) [SEMI])
      else (None, skip_to_end ts (p + 1)))"

text \<open>
  \<^verbatim>\<open>Parser._parse_element\<close> ends either with an element (or none) or with the call of
  \<^verbatim>\<open>_parse_element_tail\<close> on the element it has built; \<^verbatim>\<open>_parse_element_tail\<close> ends either
  with the element or with the call of \<^verbatim>\<open>_parse_body\<close> after an opening brace. The two
  functions are split at these calls: the parts before them need no recursion.
\<close>

datatype head_result = Finished "Element option" nat | NeedsTail Element nat

datatype tail_result = TailDone Element nat | TailBody Element nat

text \<open>\<^verbatim>\<open>Parser._parse_use_case\<close> up to the call of \<^verbatim>\<open>_parse_element_tail\<close>, at \<^verbatim>\<open>use\<close>.\<close>

definition parse_use_case :: "Token list \<Rightarrow> int \<Rightarrow> int \<Rightarrow> string list \<Rightarrow> Token option \<Rightarrow> nat
    \<Rightarrow> head_result" where
  "parse_use_case ts ln cl mods pending p =
     (case parse_identification ts (eat ts (p + 2) [KW ''def'']) of
        (nm, p') \<Rightarrow>
          NeedsTail
            (attach_pending pending
               (new_element (if at ts (p + 2) [KW ''def''] then ''use_case_def'' else ''use_case'')
                  (at ts (p + 2) [KW ''def'']) nm None mods ln cl))
            p')"

text \<open>The parameter of \<^verbatim>\<open>_parse_element\<close> after a direction keyword, at its name.\<close>

definition parse_parameter :: "Token list \<Rightarrow> int \<Rightarrow> int \<Rightarrow> string list \<Rightarrow> nat \<Rightarrow> head_result" where
  "parse_parameter ts ln cl mods p =
     (case (if at ts (p + 1) [COLON]
            then (case parse_qualified_name ts (p + 2) of (q, p') \<Rightarrow> (Some q, p'))
            else (None, p + 1)) of
        (param_type, p1) \<Rightarrow>
          (case (if at ts p1 [LBRACK]
                 then (case parse_multiplicity ts p1 of (m, p') \<Rightarrow> (Some m, p'))
                 else (None, p1)) of
             (mult, p2) \<Rightarrow>
               Finished
                 (Some (set_multiplicity mult
                    (new_element ''parameter'' False (Some (t_value (cur ts p))) param_type mods ln cl)))
                 (eat ts p2 [SEMI])))"

text \<open>\<^verbatim>\<open>Parser._parse_element\<close> from the direction keywords on: \<open>mods\<close> are the modifiers
  read so far, \<open>ln\<close> and \<open>cl\<close> the place of the first token of the element.\<close>

definition element_general :: "Token list \<Rightarrow> Token option \<Rightarrow> int \<Rightarrow> int \<Rightarrow> string list \<Rightarrow> nat
    \<Rightarrow> head_result" where
  "element_general ts pending ln cl mods0 p0 =
     (let direction = at ts p0 DIRECTION_KEYWORDS;
          mods = (if direction then mods0 @ [t_value (cur ts p0)] else mods0);
          p = (if direction then p0 + 1 else p0)
      in if at ts p [KW ''use''] \<and> t_type (peek_tok ts p) = KW ''case'' then
           parse_use_case ts ln cl mods pending p
         else if at ts p BODY_ONLY_KEYWORDS then Finished None (skip_to_end ts p)
         else if at ts p [AT_SIGN, AT_AT] then Finished None (skip_to_end ts p)
         else if \<not> at ts p ELEMENT_KEYWORDS then
           (if direction \<and> at ts p [IDENTIFIER] then parse_parameter ts ln cl mods p
            else Finished None (if \<not> at ts p [EOF, RBRACE] then p + 1 else p))
         else
           (case parse_identification ts (eat ts (p + 1) [KW ''def'']) of
              (nm, p') \<Rightarrow>
                NeedsTail
                  (attach_pending pending
                     (new_element
                        (t_value (cur ts p) @ (if at ts (p + 1) [KW ''def''] then ''_def'' else []))
                        (at ts (p + 1) [KW ''def'']) nm None mods ln cl))
                  p'))"

text \<open>\<^verbatim>\<open>Parser._parse_element\<close> up to the direction keywords.\<close>

definition element_start :: "Token list \<Rightarrow> Token option \<Rightarrow> nat \<Rightarrow> head_result" where
  "element_start ts pending p0 =
     (if at ts p0 [SEMI] then Finished None (p0 + 1)
      else
        (case modifiers_loop ts (if at ts p0 VISIBILITY then [t_value (cur ts p0)] else [])
                (if at ts p0 VISIBILITY then p0 + 1 else p0) of
           (mods, p) \<Rightarrow>
             (let ln = t_line (cur ts p0); cl = t_col (cur ts p0) in
              if at ts p [COLON_GT_GT, COLON_COLON_GT, COLON_GT] then Finished None (skip_to_end ts p)
              else if at ts p [KW ''import''] then
                (case parse_import ts ln cl mods p of (e, p') \<Rightarrow> Finished (Some e) p')
              else if at ts p [KW ''doc''] then
                (case parse_doc ts ln cl pending p of (e, p') \<Rightarrow> Finished (Some e) p')
              else if at ts p [KW ''comment''] then
                (case parse_comment_kw ts ln cl p of (e, p') \<Rightarrow> Finished (Some e) p')
              else if at ts p [KW ''require'', KW ''assume''] then
                (case parse_require_or_assume ts ln cl mods p of (eo, p') \<Rightarrow> Finished eo p')
              else if at ts p SEQUENCE_KEYWORDS then
                (case parse_name_token ts (p + 1) of
                   (seq_name, p') \<Rightarrow>
                     Finished (Some (new_element (t_value (cur ts p)) False seq_name None [] ln cl))
                       (eat ts p' [SEMI]))
              else if at ts p [KW ''return''] then
                (case parse_name_token ts (p + 1) of
                   (ret_name, p1) \<Rightarrow>
                     (case (if at ts p1 [COLON]
                            then (case parse_qualified_name ts (p1 + 1) of (q, p') \<Rightarrow> (Some q, p'))
                            else (None, p1)) of
                        (ret_type, p2) \<Rightarrow>
                          Finished
                            (Some (new_element ''return_param'' False ret_name ret_type
                                     [''return''] ln cl))
                            (eat ts p2 [SEMI])))
              else element_general ts pending ln cl mods p)))"

text \<open>\<^verbatim>\<open>Parser._parse_element_tail\<close> up to the body: the type annotation, the
  specialisations, the redefinition, the multiplicity, and the default value or the
  terminator.\<close>

definition tail_type :: "Token list \<Rightarrow> Element \<Rightarrow> nat \<Rightarrow> Element \<times> nat" where
  "tail_type ts elem p =
     (if at ts p [COLON] then
        (case parse_qualified_name ts (eat ts (p + 1) [KW ''typed'']) of
           (q, p1) \<Rightarrow>
             if at ts p1 [LBRACK] then
               (case parse_multiplicity ts p1 of
                  (m, p2) \<Rightarrow> (set_multiplicity (Some m) (set_type_ref (Some q) elem), p2))
             else (set_type_ref (Some q) elem, p1))
      else (elem, p))"

definition tail_specializes :: "Token list \<Rightarrow> Element \<Rightarrow> nat \<Rightarrow> Element \<times> nat" where
  "tail_specializes ts elem p =
     (if at ts p [COLON_GT] \<or> at ts p [KW ''specializes''] then
        (case parse_qualified_name ts (p + 1) of
           (q, p1) \<Rightarrow>
             (case comma_loop ts (specializes elem @ [q]) p1 of
                (names, p2) \<Rightarrow> (set_specializes names elem, p2)))
      else (elem, p))"

definition tail_redefines :: "Token list \<Rightarrow> nat \<Rightarrow> nat" where
  "tail_redefines ts p =
     (if at ts p [COLON_GT_GT] \<or> at ts p [KW ''redefines'']
      then snd (parse_qualified_name ts (p + 1)) else p)"

definition tail_multiplicity :: "Token list \<Rightarrow> Element \<Rightarrow> nat \<Rightarrow> Element \<times> nat" where
  "tail_multiplicity ts elem p =
     (if multiplicity elem = None \<and> at ts p [LBRACK] then
        (case parse_multiplicity ts p of (m, p') \<Rightarrow> (set_multiplicity (Some m) elem, p'))
      else (elem, p))"

definition tail_start :: "Token list \<Rightarrow> Element \<Rightarrow> nat \<Rightarrow> tail_result" where
  "tail_start ts elem p =
     (case tail_type ts elem p of
        (e1, p1) \<Rightarrow>
          (case tail_specializes ts e1 p1 of
             (e2, p2) \<Rightarrow>
               (case tail_multiplicity ts e2 (tail_redefines ts p2) of
                  (e3, p3) \<Rightarrow>
                    if at ts p3 [EQ] then TailDone e3 (skip_expression ts (p3 + 1))
                    else if at ts p3 [LBRACE] then TailBody e3 (p3 + 1)
                    else TailDone e3 (eat ts p3 [SEMI]))))"

text \<open>The end of \<^verbatim>\<open>_parse_element_tail\<close> after the body: the children become the body,
  and the first \<^verbatim>\<open>doc\<close> child gives the doc when the element has none.\<close>

definition attach_body :: "Element list \<Rightarrow> Element \<Rightarrow> Element" where
  "attach_body children elem =
     (case find (\<lambda>child. kind child = ''doc'') children of
        None \<Rightarrow> set_body children elem
      | Some child \<Rightarrow>
          if doc elem = None then set_doc (doc child) (set_body children elem)
          else set_body children elem)"

text \<open>
  \<^verbatim>\<open>Parser._parse_body\<close>, \<^verbatim>\<open>_parse_element\<close> and \<^verbatim>\<open>_parse_element_tail\<close>. The loop of
  \<^verbatim>\<open>_parse_body\<close> can run forever, so the three functions take fuel: every turn of the
  loop and every call uses one unit, and \<open>None\<close> is the result when the fuel runs out.
  \<open>elems\<close> is the list \<^verbatim>\<open>elements\<close> of the loop.
\<close>

fun parse_body :: "nat \<Rightarrow> Token list \<Rightarrow> bool \<Rightarrow> Element list \<Rightarrow> nat \<Rightarrow> (Element list \<times> nat) option"
  and parse_element :: "nat \<Rightarrow> Token list \<Rightarrow> Token option \<Rightarrow> nat \<Rightarrow> (Element option \<times> nat) option"
  and parse_element_tail :: "nat \<Rightarrow> Token list \<Rightarrow> Element \<Rightarrow> nat \<Rightarrow> (Element \<times> nat) option"
where
  "parse_body 0 ts top_level elems p = None"
| "parse_body (Suc n) ts top_level elems p =
     (if at ts p [EOF] then Some (elems, p)
      else if \<not> top_level \<and> at ts p [RBRACE] then Some (elems, p)
      else
        (case pending_loop ts None p of
           (pending, p1) \<Rightarrow>
             if at ts p1 [EOF] then Some (elems, p1)
             else if \<not> top_level \<and> at ts p1 [RBRACE] then Some (elems, p1)
             else
               (case parse_element n ts pending p1 of
                  None \<Rightarrow> None
                | Some (None, p2) \<Rightarrow> parse_body n ts top_level elems p2
                | Some (Some elem, p2) \<Rightarrow> parse_body n ts top_level (elems @ [elem]) p2)))"
| "parse_element 0 ts pending p = None"
| "parse_element (Suc n) ts pending p =
     (case element_start ts pending p of
        Finished result p' \<Rightarrow> Some (result, p')
      | NeedsTail elem p' \<Rightarrow>
          (case parse_element_tail n ts elem p' of
             None \<Rightarrow> None
           | Some (elem', p'') \<Rightarrow> Some (Some elem', p'')))"
| "parse_element_tail 0 ts elem p = None"
| "parse_element_tail (Suc n) ts elem p =
     (case tail_start ts elem p of
        TailDone elem' p' \<Rightarrow> Some (elem', p')
      | TailBody elem' p' \<Rightarrow>
          (case parse_body n ts False [] p' of
             None \<Rightarrow> None
           | Some (children, p'') \<Rightarrow> Some (attach_body children elem', eat ts p'' [RBRACE])))"

text \<open>\<^verbatim>\<open>Parser.__init__\<close> drops the line comments; \<^verbatim>\<open>Parser.parse\<close> with fuel \<open>n\<close>.\<close>

definition init_tokens :: "Token list \<Rightarrow> Token list" where
  "init_tokens tokens = filter (\<lambda>t. t_type t \<noteq> LINE_COMMENT) tokens"

definition parse :: "nat \<Rightarrow> Token list \<Rightarrow> string \<Rightarrow> File option" where
  "parse n tokens fname =
     (case parse_body n (init_tokens tokens) True [] 0 of
        None \<Rightarrow> None
      | Some (elems, p) \<Rightarrow> Some \<lparr>filename = fname, elements = elems\<rparr>)"

section \<open>The checker with the tree as state\<close>

text \<open>
  Python hands the rules a reference to the file, so a rule could change the tree it
  walks. In this second model of the rule engine the tree is a state: a visitor returns
  the element as it leaves it together with its findings, \<^verbatim>\<open>BaseRule._walk\<close> returns the
  elements as the visitors and the walks of the bodies leave them, a rule returns the
  file as it leaves it, and \<^verbatim>\<open>check_file\<close> hands each rule the file that the rule before
  it left. A walk over a tree that its visitor keeps growing need not end, so the walk
  is a partial function.
\<close>

partial_function (option) walk_st ::
  "(Element \<Rightarrow> string \<Rightarrow> Element option \<Rightarrow> Diagnostic list \<times> Element) \<Rightarrow> Element list
    \<Rightarrow> string \<Rightarrow> Element option \<Rightarrow> (Diagnostic list \<times> Element list) option" where
  "walk_st visitor elems fname parent =
     (case elems of
        [] \<Rightarrow> Some ([], [])
      | e # rest \<Rightarrow>
          (case visitor e fname parent of
             (d1, e1) \<Rightarrow>
               Option.bind (walk_st visitor (body e1) fname (Some e1))
                 (\<lambda>inner.
                    Option.bind (walk_st visitor rest fname parent)
                      (\<lambda>later.
                         Some (d1 @ fst inner @ fst later,
                               set_body (snd inner) e1 # snd later)))))"

text \<open>The visitors of the three walking rules read \<^verbatim>\<open>elem.kind\<close>, \<^verbatim>\<open>elem.name\<close>, \<^verbatim>\<open>elem.doc\<close>,
  \<^verbatim>\<open>elem.body\<close>, \<^verbatim>\<open>elem.type_ref\<close>, \<^verbatim>\<open>elem.specializes\<close>, \<^verbatim>\<open>elem.line\<close> and \<^verbatim>\<open>elem.col\<close>; none
  holds an assignment to a field of the element, so each leaves the element it got.\<close>

definition naming_visit_st :: "Element \<Rightarrow> string \<Rightarrow> Element option \<Rightarrow> Diagnostic list \<times> Element" where
  "naming_visit_st elem fname parent = (naming_visit elem fname parent, elem)"

definition documentation_visit_st :: "Element \<Rightarrow> string \<Rightarrow> Element option \<Rightarrow> Diagnostic list \<times> Element" where
  "documentation_visit_st elem fname parent = (documentation_visit elem fname parent, elem)"

definition structure_visit_st :: "Element \<Rightarrow> string \<Rightarrow> Element option \<Rightarrow> Diagnostic list \<times> Element" where
  "structure_visit_st elem fname parent = (structure_visit elem fname parent, elem)"

text \<open>The \<^verbatim>\<open>check\<close> method of a walking rule: the file after it has the elements that the
  walk left.\<close>

definition walking_rule_st ::
  "(Element \<Rightarrow> string \<Rightarrow> Element option \<Rightarrow> Diagnostic list \<times> Element) \<Rightarrow> File
    \<Rightarrow> (Diagnostic list \<times> File) option" where
  "walking_rule_st visitor f =
     (case walk_st visitor (elements f) (filename f) None of
        None \<Rightarrow> None
      | Some (ds, elems) \<Rightarrow> Some (ds, f\<lparr>elements := elems\<rparr>))"

text \<open>\<^verbatim>\<open>ScopeRule.check\<close>: \<^verbatim>\<open>_check_duplicates\<close>, \<^verbatim>\<open>_collect_imports\<close> and
  \<^verbatim>\<open>_collect_references\<close> assign to their local containers \<^verbatim>\<open>seen\<close>, \<^verbatim>\<open>diags\<close> and \<^verbatim>\<open>out\<close>
  only, and \<^verbatim>\<open>_check_unused_imports\<close> to local variables; the rule leaves the file it got.\<close>

definition scope_check_st :: "File \<Rightarrow> (Diagnostic list \<times> File) option" where
  "scope_check_st f = Some (scope_check f, f)"

definition ALL_RULES_st :: "(File \<Rightarrow> (Diagnostic list \<times> File) option) list" where
  "ALL_RULES_st =
     [walking_rule_st naming_visit_st, walking_rule_st documentation_visit_st,
      walking_rule_st structure_visit_st, scope_check_st]"

text \<open>The loop of \<^verbatim>\<open>check_file\<close> over the rules, with the findings so far and the file
  as the rules have left it, and \<^verbatim>\<open>check_file\<close> itself: the sorted findings and the file
  after the call.\<close>

fun check_loop_st :: "(File \<Rightarrow> (Diagnostic list \<times> File) option) list \<Rightarrow> string set option
    \<Rightarrow> Diagnostic list \<Rightarrow> File \<Rightarrow> (Diagnostic list \<times> File) option" where
  "check_loop_st [] rule_ids diags f = Some (diags, f)"
| "check_loop_st (rule # rules) rule_ids diags f =
     (case rule f of
        None \<Rightarrow> None
      | Some (ds, f') \<Rightarrow>
          check_loop_st rules rule_ids
            (diags @ (case rule_ids of None \<Rightarrow> ds | Some ids \<Rightarrow> filter (\<lambda>d. rule_id d \<in> ids) ds))
            f')"

definition check_file_st :: "File \<Rightarrow> string set option \<Rightarrow> (Diagnostic list \<times> File) option" where
  "check_file_st f rule_ids =
     (case check_loop_st ALL_RULES_st rule_ids [] f of
        None \<Rightarrow> None
      | Some (diags, f') \<Rightarrow> Some (py_sorted diags, f'))"

section \<open>Notions used in the statements\<close>

text \<open>The dictionary \<^verbatim>\<open>seen\<close> after the loop of \<open>check_dups\<close> has run over a list.\<close>

fun seen_after :: "Element list \<Rightarrow> (string \<rightharpoonup> Element) \<Rightarrow> (string \<rightharpoonup> Element)" where
  "seen_after [] seen = seen"
| "seen_after (elem # rest) seen =
     seen_after rest
       (if contributes elem \<and> seen (dup_key elem) = None then seen(dup_key elem \<mapsto> elem) else seen)"

text \<open>The keys that the elements of one scope contribute, in order.\<close>

definition scope_keys :: "Element list \<Rightarrow> string list" where
  "scope_keys es = map dup_key (filter contributes es)"

text \<open>No scope of the tree holds two contributing elements with the same key: neither
  the list itself, nor the body of any element, at any depth.\<close>

fun scopes_ok :: "Element list \<Rightarrow> bool" where
  "scopes_ok [] = True"
| "scopes_ok (e # es) =
     ((if contributes e then dup_key e \<notin> set (scope_keys es) else True)
      \<and> scopes_ok (body e) \<and> scopes_ok es)"

text \<open>Every element of the tree, parents before their bodies.\<close>

fun all_elems :: "Element list \<Rightarrow> Element list" where
  "all_elems [] = []"
| "all_elems (e # es) = e # all_elems (body e) @ all_elems es"

text \<open>The scopes of a tree: the list itself and the body of every element, at any depth.\<close>

definition scopes :: "Element list \<Rightarrow> Element list list" where
  "scopes es = es # map body (all_elems es)"

text \<open>What the duplicate check has to say about an element \<open>b\<close> of a scope that has the
  siblings \<open>pre\<close> before it: nothing unless \<open>b\<close> contributes and a contributing sibling
  before it has its key; then one finding, for \<open>b\<close> and the first such sibling.\<close>

definition later_report :: "Element list \<Rightarrow> Element \<Rightarrow> string \<Rightarrow> Diagnostic list" where
  "later_report pre b fn =
     (if contributes b then
        (case find (\<lambda>a. contributes a \<and> dup_key a = dup_key b) pre of
           None \<Rightarrow> []
         | Some a \<Rightarrow> [dup_diag b a fn])
      else [])"

text \<open>The same for the elements of a list that has the siblings \<open>pre\<close> before it, in
  order, and for a whole scope. The findings of the bodies are not part of it: a body is
  a scope of its own.\<close>

fun report_after :: "Element list \<Rightarrow> Element list \<Rightarrow> string \<Rightarrow> Diagnostic list" where
  "report_after pre [] fn = []"
| "report_after pre (b # post) fn = later_report pre b fn @ report_after (pre @ [b]) post fn"

definition scope_report :: "Element list \<Rightarrow> string \<Rightarrow> Diagnostic list" where
  "scope_report sc fn = report_after [] sc fn"

text \<open>The segments one element refers to: those of its non-empty \<^verbatim>\<open>type_ref\<close> and of each
  of its \<^verbatim>\<open>specializes\<close>.\<close>

definition refs_of :: "Element \<Rightarrow> string set" where
  "refs_of e = (if truthy (type_ref e) then set (split_cc (the (type_ref e))) else {})
               \<union> (\<Union>s \<in> set (specializes e). set (split_cc s))"

text \<open>The compound operators of \<^verbatim>\<open>token_types.TokenType\<close> with their spellings, in the
  order of the enumeration, and the operator characters that start one, with the token
  that \<^verbatim>\<open>_next_token\<close> gives for each on its own.\<close>

definition COMPOUND :: "(string \<times> TokenType) list" where
  "COMPOUND =
    [(''!=='', BANG_EQ_EQ), (''::>'', COLON_COLON_GT), ('':>>'', COLON_GT_GT),
     (''==='', EQ_EQ_EQ), (''!='', BANG_EQ), (''**'', STAR_STAR), (''->'', ARROW),
     (''..'', DOT_DOT), (''.?'', DOT_QUESTION), (''::'', COLON_COLON), ('':='', COLON_EQ),
     ('':>'', COLON_GT), (''<='', LE), (''=='', EQ_EQ), (''=>'', FAT_ARROW), (''>='', GE),
     (''??'', QUESTION_QUESTION), (''@@'', AT_AT)]"

definition FALLBACK :: "(char \<times> TokenType) list" where
  "FALLBACK =
    [(CHR '':'', COLON), (CHR ''='', EQ), (CHR ''*'', STAR), (CHR ''-'', MINUS),
     (CHR ''.'', DOT), (CHR ''<'', LT), (CHR ''>'', GT), (CHR ''?'', QUESTION),
     (CHR ''@'', AT_SIGN), (CHR ''!'', IDENTIFIER)]"

text \<open>The token kinds of the operator characters on their own.\<close>

definition SINGLE_CHAR_OPERATORS :: "TokenType list" where
  "SINGLE_CHAR_OPERATORS = [COLON, EQ, STAR, MINUS, DOT, LT, GT, QUESTION, AT_SIGN]"

text \<open>Some compound operator is a prefix of the text; some compound operator longer than
  \<open>n\<close> characters is.\<close>

definition compound_prefix :: "string \<Rightarrow> bool" where
  "compound_prefix s = list_ex (\<lambda>(op, ty). startswith s op) COMPOUND"

definition longer_compound_prefix :: "nat \<Rightarrow> string \<Rightarrow> bool" where
  "longer_compound_prefix n s = list_ex (\<lambda>(op, ty). n < length op \<and> startswith s op) COMPOUND"

text \<open>The state after \<open>n\<close> characters of one line have been consumed.\<close>

definition moved :: "nat \<Rightarrow> Lexer \<Rightarrow> Lexer" where
  "moved n L = L\<lparr>pos := pos L + n, l_col := l_col L + int n\<rparr>"

section \<open>Properties of the checker\<close>

subsection \<open>Auxiliary facts\<close>

lemma check_dups_append:
  "check_dups (xs @ ys) seen fn = check_dups xs seen fn @ check_dups ys (seen_after xs seen) fn"
  by (induction xs arbitrary: seen) auto

lemma seen_after_append:
  "seen_after (xs @ ys) seen = seen_after ys (seen_after xs seen)"
  by (induction xs arbitrary: seen) auto

lemma dom_seen_after:
  "dom (seen_after es seen) = dom seen \<union> set (scope_keys es)"
  by (induction es arbitrary: seen) (auto simp: scope_keys_def)

lemma seen_after_keeps:
  "seen k = Some e \<Longrightarrow> seen_after es seen k = Some e"
proof (induction es arbitrary: seen)
  case Nil
  then show ?case by simp
next
  case (Cons a es)
  then show ?case by (cases "k = dup_key a") auto
qed

lemma check_dups_empty_iff:
  "check_dups es seen fn = [] \<longleftrightarrow> scopes_ok es \<and> set (scope_keys es) \<inter> dom seen = {}"
proof (induction es seen fn rule: check_dups.induct)
  case (1 seen fname)
  then show ?case by (simp add: scope_keys_def)
next
  case (2 elem rest seen fname)
  have b: "check_dups (body elem) Map.empty fname = [] \<longleftrightarrow> scopes_ok (body elem)"
  proof (cases "body elem = []")
    case True
    then show ?thesis by simp
  next
    case False
    with 2(1) show ?thesis by (simp add: scope_keys_def)
  qed
  show ?case
  proof (cases "contributes elem")
    case False
    with 2(2) b show ?thesis by (auto simp: scope_keys_def)
  next
    case True
    show ?thesis
    proof (cases "seen (dup_key elem)")
      case None
      let ?seen' = "seen(dup_key elem \<mapsto> elem)"
      have ih: "check_dups rest ?seen' fname = []
          \<longleftrightarrow> scopes_ok rest \<and> set (scope_keys rest) \<inter> dom ?seen' = {}"
      proof -
        have c: "(contributes elem \<and> seen (dup_key elem) = None) = True"
          using True None by simp
        show ?thesis using 2(2) unfolding c if_True .
      qed
      have d: "set (scope_keys rest) \<inter> dom ?seen' = {}
          \<longleftrightarrow> dup_key elem \<notin> set (scope_keys rest) \<and> set (scope_keys rest) \<inter> dom seen = {}"
        by auto
      have k: "set (scope_keys (elem # rest)) \<inter> dom seen = {}
          \<longleftrightarrow> set (scope_keys rest) \<inter> dom seen = {}"
        using True None by (auto simp: scope_keys_def)
      have "check_dups (elem # rest) seen fname = []
          \<longleftrightarrow> check_dups (body elem) Map.empty fname = [] \<and> check_dups rest ?seen' fname = []"
        using True None by simp
      then show ?thesis
        unfolding ih d k b using True by auto
    next
      case (Some first)
      with True show ?thesis by (auto simp: scope_keys_def)
    qed
  qed
qed

lemma collect_references_set:
  "set (collect_references es) = (\<Union>e \<in> set (all_elems es). refs_of e)"
  by (induction es rule: collect_references.induct) (auto simp: refs_of_def)

lemma collect_imports_all_elems:
  "collect_imports es = filter (\<lambda>e. kind e = ''import'') (all_elems es)"
  by (induction es rule: collect_imports.induct) auto

lemma check_unused_imports_concat:
  "check_unused_imports f =
     concat (map (\<lambda>imp. import_diags imp (collect_references (elements f)) (filename f))
                 (collect_imports (elements f)))"
  by (simp add: check_unused_imports_def)

lemma split_cc_nonempty: "split_cc s \<noteq> []"
  by (induction s rule: split_cc.induct) (auto split: list.splits)

lemma import_diags_nonstar:
  "\<not> import_star imp \<Longrightarrow> import_path imp = Some p \<Longrightarrow> p \<noteq> [] \<Longrightarrow>
   import_diags imp used fn =
     (if last (split_cc p) \<notin> set used \<and> p \<notin> set used then [unused_import_diag imp fn] else [])"
  by (simp add: import_diags_def import_referenced_def Let_def split_cc_nonempty)

lemma import_diags_empty_path:
  "\<not> truthy (import_path imp) \<Longrightarrow> import_diags imp used fn = []"
  by (simp add: import_diags_def)

lemma walk_nil:
  "(\<And>e fn p. e \<in> set (all_elems es) \<Longrightarrow> v e fn p = []) \<Longrightarrow> walk v es fname parent = []"
  by (induction v es fname parent rule: walk.induct) auto

lemma single_import:
  assumes "p \<noteq> []"
  shows "check_file \<lparr>filename = fn,
           elements = [Element ''import'' False None None [] None [] None mods l c (Some p) False]\<rparr> None
         = [unused_import_diag (Element ''import'' False None None [] None [] None mods l c (Some p) False) fn]"
  using assms
  by (simp add: check_file_def py_sorted_def collect_diags_def ALL_RULES_def rule_diags_def
      naming_check_def documentation_check_def structure_check_def scope_check_def
      naming_visit_def documentation_visit_def structure_visit_def check_duplicates_def
      check_unused_imports_def contributes_def PACKAGE_KINDS_def DOC_DEF_KINDS_def
      SUBSTANTIVE_DEFS_def TYPED_USAGES_def NAMED_KINDS_def import_diags_def
      import_referenced_def Let_def)

lemma walk_ids:
  "(\<And>e fn p d. d \<in> set (v e fn p) \<Longrightarrow> P d) \<Longrightarrow> d \<in> set (walk v es fname parent) \<Longrightarrow> P d"
  by (induction v es fname parent rule: walk.induct) auto

lemma diag_sel [simp]:
  "rule_id (diag r s m f l c) = r" "severity (diag r s m f l c) = s"
  "message (diag r s m f l c) = m" "d_filename (diag r s m f l c) = f"
  "d_line (diag r s m f l c) = l" "d_col (diag r s m f l c) = c"
  by (simp_all add: diag_def)

lemma naming_visit_ids:
  "d \<in> set (naming_visit e fn p) \<Longrightarrow> rule_id d \<in> {''W001'', ''W002'', ''W003''}"
  by (auto simp: naming_visit_def split: option.splits if_splits)

lemma naming_ids:
  "d \<in> set (naming_check f) \<Longrightarrow> rule_id d \<in> {''W001'', ''W002'', ''W003''}"
  unfolding naming_check_def
  by (rule walk_ids [where P = "\<lambda>d. rule_id d \<in> {''W001'', ''W002'', ''W003''}"])
     (erule naming_visit_ids)

lemma documentation_visit_ids:
  "d \<in> set (documentation_visit e fn p) \<Longrightarrow> rule_id d \<in> {''W010'', ''W011''}"
  by (auto simp: documentation_visit_def split: if_splits)

lemma documentation_ids:
  "d \<in> set (documentation_check f) \<Longrightarrow> rule_id d \<in> {''W010'', ''W011''}"
  unfolding documentation_check_def
  by (rule walk_ids [where P = "\<lambda>d. rule_id d \<in> {''W010'', ''W011''}"])
     (erule documentation_visit_ids)

lemma structure_visit_ids:
  "d \<in> set (structure_visit e fn p)
   \<Longrightarrow> rule_id d \<in> {''W020'', ''W021'', ''W022'', ''W023'', ''I001''}"
  unfolding structure_visit_def set_append Un_iff
  by (elim disjE) (auto split: if_splits)

lemma structure_ids:
  "d \<in> set (structure_check f)
   \<Longrightarrow> rule_id d \<in> {''W020'', ''W021'', ''W022'', ''W023'', ''I001''}"
  unfolding structure_check_def
  by (rule walk_ids [where P = "\<lambda>d. rule_id d \<in> {''W020'', ''W021'', ''W022'', ''W023'', ''I001''}"])
     (erule structure_visit_ids)

lemma check_dups_ids:
  "d \<in> set (check_dups es seen fn) \<Longrightarrow> rule_id d = ''W030''"
proof (induction es seen fn rule: check_dups.induct)
  case (1 seen fname)
  then show ?case by simp
next
  case (2 elem rest seen fname)
  let ?seen' = "if contributes elem \<and> seen (dup_key elem) = None
                then seen(dup_key elem \<mapsto> elem) else seen"
  from 2(3) consider
      (here) first where "seen (dup_key elem) = Some first" "d = dup_diag elem first fname"
    | (inside) "body elem \<noteq> []" "d \<in> set (check_dups (body elem) Map.empty fname)"
    | (later) "d \<in> set (check_dups rest ?seen' fname)"
    by (cases "contributes elem"; cases "seen (dup_key elem)"; cases "body elem = []") auto
  then show ?case
  proof cases
    case here
    then show ?thesis by (simp add: dup_diag_def)
  next
    case inside
    then show ?thesis by (rule 2(1))
  next
    case later
    then show ?thesis by (rule 2(2))
  qed
qed

lemma unused_ids:
  "d \<in> set (check_unused_imports f) \<Longrightarrow> rule_id d = ''W031''"
  by (auto simp: check_unused_imports_def import_diags_def unused_import_diag_def
      split: if_splits)

lemma filter_none: "(\<And>d. d \<in> set xs \<Longrightarrow> \<not> P d) \<Longrightarrow> filter P xs = []"
  by (induction xs) auto

lemma filter_all: "(\<And>d. d \<in> set xs \<Longrightarrow> P d) \<Longrightarrow> filter P xs = xs"
  by (induction xs) auto

lemma w030_of_check_file:
  "filter (\<lambda>d. rule_id d = ''W030'') (check_file f None)
   = py_sorted (check_duplicates (elements f) (filename f))"
proof -
  have n: "filter (\<lambda>d. rule_id d = ''W030'') (naming_check f) = []"
    by (rule filter_none) (auto dest: naming_ids)
  have d: "filter (\<lambda>d. rule_id d = ''W030'') (documentation_check f) = []"
    by (rule filter_none) (auto dest: documentation_ids)
  have s: "filter (\<lambda>d. rule_id d = ''W030'') (structure_check f) = []"
    by (rule filter_none) (auto dest: structure_ids)
  have u: "filter (\<lambda>d. rule_id d = ''W030'') (check_unused_imports f) = []"
    by (rule filter_none) (auto dest: unused_ids)
  have c: "filter (\<lambda>d. rule_id d = ''W030'') (check_duplicates (elements f) (filename f))
           = check_duplicates (elements f) (filename f)"
    by (rule filter_all) (auto simp: check_duplicates_def dest: check_dups_ids)
  show ?thesis
    by (simp add: check_file_def py_sorted_def filter_sort collect_diags_def ALL_RULES_def
        rule_diags_def scope_check_def n d s u c)
qed

lemma w031_of_check_file:
  "filter (\<lambda>d. rule_id d = ''W031'') (check_file f None)
   = py_sorted (check_unused_imports f)"
proof -
  have n: "filter (\<lambda>d. rule_id d = ''W031'') (naming_check f) = []"
    by (rule filter_none) (auto dest: naming_ids)
  have d: "filter (\<lambda>d. rule_id d = ''W031'') (documentation_check f) = []"
    by (rule filter_none) (auto dest: documentation_ids)
  have s: "filter (\<lambda>d. rule_id d = ''W031'') (structure_check f) = []"
    by (rule filter_none) (auto dest: structure_ids)
  have c: "filter (\<lambda>d. rule_id d = ''W031'') (check_duplicates (elements f) (filename f)) = []"
    by (rule filter_none) (auto simp: check_duplicates_def dest: check_dups_ids)
  have u: "filter (\<lambda>d. rule_id d = ''W031'') (check_unused_imports f) = check_unused_imports f"
    by (rule filter_all) (auto dest: unused_ids)
  show ?thesis
    by (simp add: check_file_def py_sorted_def filter_sort collect_diags_def ALL_RULES_def
        rule_diags_def scope_check_def n d s u c)
qed

lemma scopes_ok_append:
  "scopes_ok (xs @ ys) \<longleftrightarrow>
     scopes_ok xs \<and> scopes_ok ys \<and> set (scope_keys xs) \<inter> set (scope_keys ys) = {}"
proof -
  have "scopes_ok (xs @ ys) \<longleftrightarrow> check_dups (xs @ ys) Map.empty [] = []"
    by (simp add: check_dups_empty_iff)
  also have "\<dots> \<longleftrightarrow> check_dups xs Map.empty [] = []
                     \<and> check_dups ys (seen_after xs Map.empty) [] = []"
    by (simp add: check_dups_append)
  also have "\<dots> \<longleftrightarrow> scopes_ok xs \<and> scopes_ok ys
                     \<and> set (scope_keys xs) \<inter> set (scope_keys ys) = {}"
    by (auto simp: check_dups_empty_iff dom_seen_after)
  finally show ?thesis .
qed

lemma seen_after_first:
  assumes "contributes a" "dup_key a \<notin> set (scope_keys pre)"
  shows "seen_after (pre @ a # mid) Map.empty (dup_key a) = Some a"
proof -
  have "dup_key a \<notin> dom (seen_after pre Map.empty)"
    using assms(2) by (simp add: dom_seen_after)
  then have n: "seen_after pre Map.empty (dup_key a) = None"
    by (simp add: domIff)
  have "seen_after (pre @ a # mid) Map.empty
        = seen_after mid ((seen_after pre Map.empty)(dup_key a \<mapsto> a))"
    using assms(1) n by (simp add: seen_after_append)
  then show ?thesis by (simp add: seen_after_keeps)
qed

lemma siblings_dup:
  assumes a: "contributes a" and b: "contributes b" and k: "dup_key a = dup_key b"
    and ok: "scopes_ok (pre @ a # mid @ post)" and okb: "scopes_ok (body b)"
  shows "check_duplicates (pre @ a # mid @ b # post) fn = [dup_diag b a fn]"
proof -
  let ?front = "pre @ a # mid"
  let ?seen = "seen_after ?front Map.empty"
  from ok have ok': "scopes_ok (?front @ post)" by simp
  then have f: "scopes_ok ?front" and p: "scopes_ok post"
    and disj: "set (scope_keys ?front) \<inter> set (scope_keys post) = {}"
    unfolding scopes_ok_append by blast+
  from f have "scopes_ok (pre @ [a] @ mid)" by simp
  then have "set (scope_keys pre) \<inter> set (scope_keys ([a] @ mid)) = {}"
    unfolding scopes_ok_append by blast
  with a have na: "dup_key a \<notin> set (scope_keys pre)"
    by (auto simp: scope_keys_def)
  have first: "?seen (dup_key b) = Some a"
    using seen_after_first [OF a na, of mid] k by simp
  have front: "check_dups ?front Map.empty fn = []"
    using f by (simp add: check_dups_empty_iff)
  have bodyb: "check_dups (body b) Map.empty fn = []"
    using okb by (simp add: check_dups_empty_iff)
  have "set (scope_keys post) \<inter> dom ?seen = {}"
    using disj by (auto simp: dom_seen_after)
  with p have rest: "check_dups post ?seen fn = []"
    by (simp add: check_dups_empty_iff)
  have "check_duplicates (pre @ a # mid @ b # post) fn
        = check_dups (?front @ b # post) Map.empty fn"
    by (simp add: check_duplicates_def)
  also have "\<dots> = check_dups (b # post) ?seen fn"
    using check_dups_append [of ?front "b # post" Map.empty fn] front by simp
  also have "\<dots> = [dup_diag b a fn]"
    using b first bodyb rest by simp
  finally show ?thesis .
qed

lemma nested_same_name:
  assumes "body a = [b]" "scopes_ok (body b)"
  shows "check_duplicates [a] fn = []"
  using assms by (simp add: check_duplicates_def check_dups_empty_iff scope_keys_def)

lemma char_of_nat_eval:
  "char_of (n::nat) = Char (odd n) (odd (n div 2)) (odd (n div 4)) (odd (n div 8))
     (odd (n div 16)) (odd (n div 32)) (odd (n div 64)) (odd (n div 128))"
  by (simp add: char_of_def bit_iff_odd)

lemma py_sorted_Nil_iff: "py_sorted ds = [] \<longleftrightarrow> ds = []"
  using length_sort [of diag_key ds] by (auto simp: py_sorted_def simp del: length_sort)

lemma type_ref_segment_collected:
  assumes "e \<in> set (all_elems es)" "type_ref e = Some t" "t \<noteq> []" "seg \<in> set (split_cc t)"
  shows "seg \<in> set (collect_references es)"
  unfolding collect_references_set using assms by (auto simp: refs_of_def intro!: bexI [of _ e])

lemma seen_after_find_gen:
  "seen_after pre seen k =
     (case seen k of Some e \<Rightarrow> Some e
      | None \<Rightarrow> find (\<lambda>a. contributes a \<and> dup_key a = k) pre)"
proof (induction pre arbitrary: seen)
  case Nil
  show ?case by (simp split: option.splits)
next
  case (Cons x pre)
  show ?case by (simp add: Cons.IH split: option.splits)
qed

lemma seen_after_find:
  "seen_after pre Map.empty k = find (\<lambda>a. contributes a \<and> dup_key a = k) pre"
  by (simp add: seen_after_find_gen)

lemma seen_after_snoc:
  "seen_after (pre @ [x]) Map.empty =
     (if contributes x \<and> seen_after pre Map.empty (dup_key x) = None
      then (seen_after pre Map.empty)(dup_key x \<mapsto> x) else seen_after pre Map.empty)"
  by (simp add: seen_after_append)

lemma own_report:
  "(if contributes b then
      (case seen_after pre Map.empty (dup_key b) of Some first \<Rightarrow> [dup_diag b first fn] | None \<Rightarrow> [])
    else []) = later_report pre b fn"
  by (simp add: later_report_def seen_after_find split: option.splits)

lemma check_dups_count:
  "seen = seen_after pre Map.empty \<Longrightarrow>
   count_list (check_dups post seen fn) d
   = count_list (report_after pre post fn) d
     + count_list (concat (map (\<lambda>e. scope_report (body e) fn) (all_elems post))) d"
proof (induction post seen fn arbitrary: pre rule: check_dups.induct)
  case (1 seen fname)
  show ?case by simp
next
  case (2 elem rest seen fname)
  let ?seen' = "if contributes elem \<and> seen (dup_key elem) = None then seen(dup_key elem \<mapsto> elem)
                else seen"
  have s': "?seen' = seen_after (pre @ [elem]) Map.empty"
    unfolding seen_after_snoc 2(3) ..
  have b: "count_list (if body elem \<noteq> [] then check_dups (body elem) Map.empty fname else []) d
      = count_list (scope_report (body elem) fname) d
        + count_list (concat (map (\<lambda>e. scope_report (body e) fname) (all_elems (body elem)))) d"
  proof (cases "body elem = []")
    case True
    then show ?thesis by (simp add: scope_report_def)
  next
    case False
    have "Map.empty = seen_after [] Map.empty" by simp
    from 2(1) [OF False this] False show ?thesis by (simp add: scope_report_def)
  qed
  have r: "count_list (check_dups rest ?seen' fname) d
      = count_list (report_after (pre @ [elem]) rest fname) d
        + count_list (concat (map (\<lambda>e. scope_report (body e) fname) (all_elems rest))) d"
    by (rule 2(2) [OF s'])
  have o: "(if contributes elem then
              (case seen (dup_key elem) of Some first \<Rightarrow> [dup_diag elem first fname] | None \<Rightarrow> [])
            else []) = later_report pre elem fname"
    unfolding 2(3) by (rule own_report)
  have "check_dups (elem # rest) seen fname
      = later_report pre elem fname
        @ (if body elem \<noteq> [] then check_dups (body elem) Map.empty fname else [])
        @ check_dups rest ?seen' fname"
    unfolding o [symmetric] by simp
  then show ?case
    by (simp only: count_list_append b r report_after.simps all_elems.simps list.map concat.simps
        concat_append map_append)
qed

lemma count_list_insort_key:
  "count_list (insort_key f x xs) d = count_list (x # xs) d"
  by (induction xs) auto

lemma count_list_sort_key:
  "count_list (sort_key f xs) d = count_list xs d"
  by (induction xs) (auto simp: count_list_insort_key)

lemma w030_count:
  "count_list (filter (\<lambda>d. rule_id d = ''W030'') (check_file f None)) d
   = count_list (concat (map (\<lambda>sc. scope_report sc (filename f)) (scopes (elements f)))) d"
proof -
  have "Map.empty = seen_after [] Map.empty" by simp
  from check_dups_count [OF this, of "elements f" "filename f" d]
  show ?thesis
    by (simp add: w030_of_check_file py_sorted_def count_list_sort_key check_duplicates_def
        scopes_def scope_report_def comp_def)
qed

lemma report_after_append:
  "report_after pre (xs @ ys) fn = report_after pre xs fn @ report_after (pre @ xs) ys fn"
  by (induction xs arbitrary: pre) auto

lemma find_first_same:
  assumes "contributes a" "dup_key a = k" "k \<notin> set (scope_keys pre)"
  shows "find (\<lambda>x. contributes x \<and> dup_key x = k) (pre @ a # mid) = Some a"
  using assms by (induction pre) (auto simp: scope_keys_def split: if_splits)

lemma later_report_pair:
  assumes "contributes a" "contributes b" "dup_key a = dup_key b"
    "dup_key a \<notin> set (scope_keys pre)"
  shows "later_report (pre @ a # mid) b fn = [dup_diag b a fn]"
  using find_first_same [of a "dup_key b" pre mid] assms by (simp add: later_report_def)

lemma later_report_none:
  assumes "\<not> contributes b \<or> dup_key b \<notin> set (scope_keys pre)"
  shows "later_report pre b fn = []"
proof (cases "contributes b")
  case False
  then show ?thesis by (simp add: later_report_def)
next
  case True
  with assms have "dup_key b \<notin> set (scope_keys pre)" by simp
  then have "find (\<lambda>a. contributes a \<and> dup_key a = dup_key b) pre = None"
    by (induction pre) (auto simp: scope_keys_def split: if_splits)
  then show ?thesis by (simp add: later_report_def)
qed

lemma scope_report_split:
  "scope_report (pre @ b # post) fn
   = scope_report pre fn @ later_report pre b fn @ report_after (pre @ [b]) post fn"
  by (simp add: scope_report_def report_after_append)

lemma count_list_mem: "count_list xs x \<noteq> 0 \<Longrightarrow> x \<in> set xs"
  using count_list_0_iff [of xs x] by simp

lemma pair_reported:
  assumes sc: "pre @ a # mid @ b # post \<in> set (scopes (elements f))"
    and c: "contributes a" "contributes b" "dup_key a = dup_key b"
      "dup_key a \<notin> set (scope_keys pre)"
  shows "dup_diag b a (filename f) \<in> set (check_file f None)"
proof -
  let ?d = "dup_diag b a (filename f)"
  let ?sc = "pre @ a # mid @ b # post"
  have "scope_report ?sc (filename f)
        = scope_report (pre @ a # mid) (filename f) @ later_report (pre @ a # mid) b (filename f)
          @ report_after ((pre @ a # mid) @ [b]) post (filename f)"
    using scope_report_split [of "pre @ a # mid" b post "filename f"] by simp
  then have "?d \<in> set (scope_report ?sc (filename f))"
    using later_report_pair [OF c, of mid "filename f"] by simp
  with sc have "?d \<in> set (concat (map (\<lambda>sc. scope_report sc (filename f)) (scopes (elements f))))"
    by auto
  then have "count_list (concat (map (\<lambda>sc. scope_report sc (filename f)) (scopes (elements f)))) ?d \<noteq> 0"
    using count_list_0_iff by fastforce
  then have "count_list (filter (\<lambda>d. rule_id d = ''W030'') (check_file f None)) ?d \<noteq> 0"
    by (simp add: w030_count)
  then have "?d \<in> set (filter (\<lambda>d. rule_id d = ''W030'') (check_file f None))"
    by (rule count_list_mem)
  then show ?thesis by simp
qed

text \<open>A name with the micro sign, the sharp s and the y with diaeresis, as the tokenizer
  takes them for letters of an identifier: the suggested name has code points above 255.\<close>

lemma to_pascal_beyond_255:
  "to_pascal [char_of (181::nat), CHR ''_'', char_of (223::nat), CHR ''X'', CHR ''_'',
              char_of (255::nat)]
   = [924, 83, 115, 120, 376]"
  by code_simp

lemma three_siblings_in_a_body:
  "filter (\<lambda>d. rule_id d = ''W030'')
     (check_file \<lparr>filename = ''m.sysml'', elements =
        [Element ''package'' False (Some ''P'') None [] None
           [Element ''part_def'' True (Some ''Foo'') None [] None [] None [] 2 3 None False,
            Element ''part'' False (Some ''foo'') (Some ''Foo'') [] None [] None [] 3 3 None False,
            Element ''part'' False (Some ''FOO'') (Some ''Foo'') [] None [] None [] 4 3 None False]
           None [] 1 1 None False]\<rparr> None)
   = [diag ''W030'' WARNING
        (ustr (''Duplicate name '' @ [CHR 0x27] @ ''foo'' @ [CHR 0x27]
               @ '' in this scope (first declared at line 2).'')) ''m.sysml'' 3 3,
      diag ''W030'' WARNING
        (ustr (''Duplicate name '' @ [CHR 0x27] @ ''FOO'' @ [CHR 0x27]
               @ '' in this scope (first declared at line 2).'')) ''m.sysml'' 4 3]"
  by (simp add: w030_of_check_file py_sorted_def check_duplicates_def contributes_def
      NAMED_KINDS_def dup_key_def lower_def lower_char_def in_range_def code_def
      char_of_nat_eval dup_diag_def str_int_def digits_of.simps diag_key_def diag_def)

subsection \<open>The claims about the rules\<close>


text \<open>
  Claim C7. A named package without documentation gets no finding at all from
  \<open>check_file\<close>: the documentation rule lets packages and namespaces past its first
  test, and then reports definition kinds only.
\<close>

theorem package_without_doc_not_reported:
  "check_file \<lparr>filename = ''m.sysml'',
      elements = [Element ''package'' False (Some ''P'') None [] None [] None [] 1 1 None False]\<rparr>
     None = []"
  by (simp add: check_file_def py_sorted_def collect_diags_def ALL_RULES_def rule_diags_def
      naming_check_def documentation_check_def structure_check_def scope_check_def
      naming_visit_def documentation_visit_def structure_visit_def check_duplicates_def
      check_unused_imports_def contributes_def PACKAGE_KINDS_def DOC_DEF_KINDS_def
      SUBSTANTIVE_DEFS_def TYPED_USAGES_def NAMED_KINDS_def is_quoted_def startswith_def
      ascii_upper_def star_dollar_def in_range_def code_def)

text \<open>
  Claim C4, as amended. A file whose only element is a non-wildcard import with a
  non-empty path (such as \<^verbatim>\<open>import A::B::C;\<close>) gets exactly one finding, the unused
  import. An element anywhere in the tree whose non-empty \<^verbatim>\<open>type_ref\<close> has the last
  segment of the path among its segments suppresses the finding of that import. In
  general a non-wildcard import with a non-empty path contributes its finding if and
  only if neither its last segment nor its whole path is among the collected segments;
  an import whose path is empty or absent is never reported. The collected segments
  are those of every non-empty \<^verbatim>\<open>type_ref\<close> and every \<^verbatim>\<open>specializes\<close> value in the tree,
  and the unused-import findings of \<open>check_file\<close> are the contributions of the imports
  of the tree, sorted.
\<close>

theorem unused_import_reported:
  "(p \<noteq> [] \<longrightarrow>
      check_file \<lparr>filename = fn,
         elements = [Element ''import'' False None None [] None [] None mods l c (Some p) False]\<rparr> None
      = [unused_import_diag (Element ''import'' False None None [] None [] None mods l c (Some p) False) fn])
   \<and> (\<not> import_star imp \<and> import_path imp = Some p \<and> p \<noteq> []
        \<and> e \<in> set (all_elems es) \<and> type_ref e = Some t \<and> t \<noteq> []
        \<and> last (split_cc p) \<in> set (split_cc t)
       \<longrightarrow> import_diags imp (collect_references es) fn = [])
   \<and> (\<not> import_star imp \<and> import_path imp = Some p \<and> p \<noteq> []
       \<longrightarrow> import_diags imp (collect_references es) fn
           = (if last (split_cc p) \<notin> set (collect_references es) \<and> p \<notin> set (collect_references es)
              then [unused_import_diag imp fn] else []))
   \<and> (\<not> truthy (import_path imp) \<longrightarrow> import_diags imp (collect_references es) fn = [])
   \<and> set (collect_references es) = (\<Union>x \<in> set (all_elems es). refs_of x)
   \<and> filter (\<lambda>d. rule_id d = ''W031'') (check_file f None)
       = py_sorted (concat (map (\<lambda>i. import_diags i (collect_references (elements f)) (filename f))
                                (filter (\<lambda>x. kind x = ''import'') (all_elems (elements f)))))"
proof (intro conjI impI)
  assume "p \<noteq> []"
  then show "check_file \<lparr>filename = fn,
         elements = [Element ''import'' False None None [] None [] None mods l c (Some p) False]\<rparr> None
      = [unused_import_diag (Element ''import'' False None None [] None [] None mods l c (Some p) False) fn]"
    by (rule single_import)
next
  assume h: "\<not> import_star imp \<and> import_path imp = Some p \<and> p \<noteq> []
        \<and> e \<in> set (all_elems es) \<and> type_ref e = Some t \<and> t \<noteq> []
        \<and> last (split_cc p) \<in> set (split_cc t)"
  then have "last (split_cc p) \<in> set (collect_references es)"
    by (intro type_ref_segment_collected [of e es t]) simp_all
  with h show "import_diags imp (collect_references es) fn = []"
    by (simp add: import_diags_nonstar)
next
  assume "\<not> import_star imp \<and> import_path imp = Some p \<and> p \<noteq> []"
  then show "import_diags imp (collect_references es) fn
           = (if last (split_cc p) \<notin> set (collect_references es) \<and> p \<notin> set (collect_references es)
              then [unused_import_diag imp fn] else [])"
    by (simp add: import_diags_nonstar)
next
  assume "\<not> truthy (import_path imp)"
  then show "import_diags imp (collect_references es) fn = []"
    by (rule import_diags_empty_path)
next
  show "set (collect_references es) = (\<Union>x \<in> set (all_elems es). refs_of x)"
    by (rule collect_references_set)
next
  show "filter (\<lambda>d. rule_id d = ''W031'') (check_file f None)
       = py_sorted (concat (map (\<lambda>i. import_diags i (collect_references (elements f)) (filename f))
                                (filter (\<lambda>x. kind x = ''import'') (all_elems (elements f)))))"
    by (simp add: w031_of_check_file check_unused_imports_concat collect_imports_all_elems)
qed

theorem unused_import_reported_witness:
  "check_file \<lparr>filename = ''m.sysml'',
      elements = [Element ''import'' False None None [] None [] None [] 1 1 (Some ''A::B::C'') False]\<rparr> None
   = [unused_import_diag
        (Element ''import'' False None None [] None [] None [] 1 1 (Some ''A::B::C'') False) ''m.sysml'']
   \<and> import_diags (Element ''import'' False None None [] None [] None [] 1 1 (Some ''A::B::C'') False)
       (collect_references
          [Element ''import'' False None None [] None [] None [] 1 1 (Some ''A::B::C'') False,
           Element ''part_def'' True (Some ''Engine'') None [] None
             [Element ''part'' False (Some ''c'') (Some ''X::C'') [] None [] None [] 3 3 None False]
             None [] 2 1 None False])
       ''m.sysml'' = []
   \<and> import_diags (Element ''import'' False None None [] None [] None [] 1 1 (Some ''A::B::C'') False)
       (collect_references
          [Element ''import'' False None None [] None [] None [] 1 1 (Some ''A::B::C'') False,
           Element ''part'' False (Some ''c'') (Some ''D'') [] None [] None [] 2 1 None False])
       ''m.sysml''
     = [unused_import_diag
          (Element ''import'' False None None [] None [] None [] 1 1 (Some ''A::B::C'') False) ''m.sysml'']
   \<and> import_diags (Element ''import'' False None None [] None [] None [] 1 1 (Some []) False)
       (collect_references []) ''m.sysml'' = []"
proof -
  let ?imp = "Element ''import'' False None None [] None [] None [] 1 1 (Some ''A::B::C'') False"
  let ?nop = "Element ''import'' False None None [] None [] None [] 1 1 (Some []) False"
  let ?use = "Element ''part'' False (Some ''c'') (Some ''X::C'') [] None [] None [] 3 3 None False"
  let ?def = "Element ''part_def'' True (Some ''Engine'') None [] None [?use] None [] 2 1 None False"
  let ?other = "Element ''part'' False (Some ''c'') (Some ''D'') [] None [] None [] 2 1 None False"
  have s: "split_cc ''A::B::C'' = [''A'', ''B'', ''C'']" "split_cc ''X::C'' = [''X'', ''C'']"
    "split_cc ''D'' = [''D'']"
    by simp_all
  show ?thesis
    using unused_import_reported [of "''A::B::C''" "''m.sysml''" "[]" 1 1 ?imp ?use "[?imp, ?def]" "''X::C''"]
      unused_import_reported [of "''A::B::C''" "''m.sysml''" "[]" 1 1 ?imp ?use "[?imp, ?other]" "''X::C''"]
      unused_import_reported [of "''A::B::C''" "''m.sysml''" "[]" 1 1 ?nop ?use "[]" "''X::C''"]
    by (simp add: s)
qed

text \<open>
  The claim as stated fails for an import without a path, as \<^verbatim>\<open>import ;\<close> parses: its
  last segment and its whole path are the empty string, which no element refers to,
  and yet nothing is reported.
\<close>

theorem import_with_empty_path_not_reported:
  "check_file \<lparr>filename = ''m.sysml'',
      elements = [Element ''import'' False None None [] None [] None [] 1 1 (Some []) False]\<rparr> None = []
   \<and> last (split_cc []) \<notin> set (collect_references
        [Element ''import'' False None None [] None [] None [] 1 1 (Some []) False])
   \<and> [] \<notin> set (collect_references
        [Element ''import'' False None None [] None [] None [] 1 1 (Some []) False])"
  by (simp add: check_file_def py_sorted_def collect_diags_def ALL_RULES_def rule_diags_def
      naming_check_def documentation_check_def structure_check_def scope_check_def
      naming_visit_def documentation_visit_def structure_visit_def check_duplicates_def
      check_unused_imports_def contributes_def PACKAGE_KINDS_def DOC_DEF_KINDS_def
      SUBSTANTIVE_DEFS_def TYPED_USAGES_def NAMED_KINDS_def import_diags_def)

text \<open>
  Claim C5, as amended. The scopes of a file are its list of elements and the body of
  every element of the tree. In a scope, the element \<open>b\<close> with the siblings \<open>pre\<close> before
  it is reported by \<open>later_report pre b\<close>: when \<open>b\<close> contributes (its kind is a named
  kind and its name is not empty) and a contributing sibling before it has the same name
  up to letter case, there is exactly one finding, at the line and column of \<open>b\<close>, and
  its message gives the line of the first such sibling, also when \<open>b\<close> is the third or a
  later element of that name; otherwise there is none. The findings W030 of
  \<open>check_file\<close> are those of all scopes, each as often as the scopes give it, so that two
  such siblings \<open>a\<close> and \<open>b\<close> of any scope, \<open>a\<close> the first of its name there, have the
  finding \<open>dup_diag b a\<close> in the result. When the two siblings of the top-level list are
  the only clash of the tree, that finding is the only W030 one. An element and an element
  of its body with the same name get none; in general the duplicate findings are empty if
  and only if no single scope of the tree holds two contributing elements with the same
  key.
\<close>

theorem duplicate_names_in_scope:
  "count_list (filter (\<lambda>d. rule_id d = ''W030'') (check_file f None)) d
     = count_list (concat (map (\<lambda>sc. scope_report sc (filename f)) (scopes (elements f)))) d
   \<and> scope_report (pre @ b # post) fn
       = scope_report pre fn @ later_report pre b fn @ report_after (pre @ [b]) post fn
   \<and> (contributes a \<and> contributes b \<and> dup_key a = dup_key b
        \<and> dup_key a \<notin> set (scope_keys pre)
       \<longrightarrow> later_report (pre @ a # mid) b fn = [dup_diag b a fn])
   \<and> (\<not> contributes b \<or> dup_key b \<notin> set (scope_keys pre) \<longrightarrow> later_report pre b fn = [])
   \<and> (pre @ a # mid @ b # post \<in> set (scopes (elements f))
        \<and> contributes a \<and> contributes b \<and> dup_key a = dup_key b
        \<and> dup_key a \<notin> set (scope_keys pre)
       \<longrightarrow> dup_diag b a (filename f) \<in> set (check_file f None))
   \<and> (contributes a \<and> contributes b \<and> dup_key a = dup_key b
        \<and> scopes_ok (pre @ a # mid @ post) \<and> scopes_ok (body b)
       \<longrightarrow> filter (\<lambda>d. rule_id d = ''W030'')
             (check_file \<lparr>filename = fn, elements = pre @ a # mid @ b # post\<rparr> None)
           = [dup_diag b a fn])
   \<and> d_line (dup_diag b a fn) = line b \<and> d_col (dup_diag b a fn) = col b
   \<and> message (dup_diag b a fn)
       = ustr (''Duplicate name '' @ [CHR 0x27] @ the (name b) @ [CHR 0x27]
         @ '' in this scope (first declared at line '' @ str_int (line a) @ '').'')
   \<and> (contributes a \<and> contributes b \<and> dup_key a = dup_key b \<and> b \<in> set (body a)
        \<and> scopes_ok (pre @ a # post)
       \<longrightarrow> filter (\<lambda>d. rule_id d = ''W030'')
             (check_file \<lparr>filename = fn, elements = pre @ a # post\<rparr> None) = [])
   \<and> ((filter (\<lambda>d. rule_id d = ''W030'') (check_file \<lparr>filename = fn, elements = es\<rparr> None) = [])
        = scopes_ok es)"
proof (intro conjI impI)
  show "count_list (filter (\<lambda>d. rule_id d = ''W030'') (check_file f None)) d
     = count_list (concat (map (\<lambda>sc. scope_report sc (filename f)) (scopes (elements f)))) d"
    by (rule w030_count)
next
  show "scope_report (pre @ b # post) fn
       = scope_report pre fn @ later_report pre b fn @ report_after (pre @ [b]) post fn"
    by (rule scope_report_split)
next
  assume "contributes a \<and> contributes b \<and> dup_key a = dup_key b
        \<and> dup_key a \<notin> set (scope_keys pre)"
  then show "later_report (pre @ a # mid) b fn = [dup_diag b a fn]"
    using later_report_pair [of a b pre mid fn] by blast
next
  assume "\<not> contributes b \<or> dup_key b \<notin> set (scope_keys pre)"
  then show "later_report pre b fn = []"
    by (rule later_report_none)
next
  assume "pre @ a # mid @ b # post \<in> set (scopes (elements f))
        \<and> contributes a \<and> contributes b \<and> dup_key a = dup_key b
        \<and> dup_key a \<notin> set (scope_keys pre)"
  then show "dup_diag b a (filename f) \<in> set (check_file f None)"
    using pair_reported [of pre a mid b post f] by blast
next
  assume h: "contributes a \<and> contributes b \<and> dup_key a = dup_key b
      \<and> scopes_ok (pre @ a # mid @ post) \<and> scopes_ok (body b)"
  then have "check_duplicates (pre @ a # mid @ b # post) fn = [dup_diag b a fn]"
    by (intro siblings_dup) simp_all
  then show "filter (\<lambda>d. rule_id d = ''W030'')
           (check_file \<lparr>filename = fn, elements = pre @ a # mid @ b # post\<rparr> None)
         = [dup_diag b a fn]"
    by (simp add: w030_of_check_file py_sorted_def)
next
  show "d_line (dup_diag b a fn) = line b" by (simp add: dup_diag_def)
next
  show "d_col (dup_diag b a fn) = col b" by (simp add: dup_diag_def)
next
  show "message (dup_diag b a fn)
       = ustr (''Duplicate name '' @ [CHR 0x27] @ the (name b) @ [CHR 0x27]
         @ '' in this scope (first declared at line '' @ str_int (line a) @ '').'')"
    by (simp add: dup_diag_def)
next
  assume "contributes a \<and> contributes b \<and> dup_key a = dup_key b \<and> b \<in> set (body a)
        \<and> scopes_ok (pre @ a # post)"
  then have "check_duplicates (pre @ a # post) fn = []"
    by (simp add: check_duplicates_def check_dups_empty_iff)
  then show "filter (\<lambda>d. rule_id d = ''W030'')
             (check_file \<lparr>filename = fn, elements = pre @ a # post\<rparr> None) = []"
    by (simp add: w030_of_check_file py_sorted_def)
next
  show "(filter (\<lambda>d. rule_id d = ''W030'') (check_file \<lparr>filename = fn, elements = es\<rparr> None) = [])
        = scopes_ok es"
    by (simp add: w030_of_check_file py_sorted_Nil_iff check_duplicates_def check_dups_empty_iff)
qed

theorem duplicate_names_in_scope_witness:
  "filter (\<lambda>d. rule_id d = ''W030'')
     (check_file \<lparr>filename = ''m.sysml'', elements =
        [Element ''part_def'' True (Some ''Foo'') None [] None [] None [] 2 3 None False,
         Element ''part'' False (Some ''foo'') (Some ''Foo'') [] None [] None [] 3 3 None False]\<rparr> None)
   = [dup_diag (Element ''part'' False (Some ''foo'') (Some ''Foo'') [] None [] None [] 3 3 None False)
        (Element ''part_def'' True (Some ''Foo'') None [] None [] None [] 2 3 None False) ''m.sysml'']
   \<and> filter (\<lambda>d. rule_id d = ''W030'')
     (check_file \<lparr>filename = ''m.sysml'', elements =
        [Element ''part_def'' True (Some ''Foo'') None [] None
           [Element ''part'' False (Some ''foo'') (Some ''Foo'') [] None [] None [] 3 3 None False]
           None [] 2 3 None False]\<rparr> None)
   = []
   \<and> dup_diag (Element ''part'' False (Some ''foo'') (Some ''Foo'') [] None [] None [] 3 3 None False)
        (Element ''part_def'' True (Some ''Foo'') None [] None [] None [] 2 3 None False) ''m.sysml''
     \<in> set (check_file \<lparr>filename = ''m.sysml'', elements =
        [Element ''package'' False (Some ''P'') None [] None
           [Element ''part_def'' True (Some ''Foo'') None [] None [] None [] 2 3 None False,
            Element ''part'' False (Some ''foo'') (Some ''Foo'') [] None [] None [] 3 3 None False,
            Element ''part'' False (Some ''FOO'') (Some ''Foo'') [] None [] None [] 4 3 None False]
           None [] 1 1 None False]\<rparr> None)
   \<and> dup_diag (Element ''part'' False (Some ''FOO'') (Some ''Foo'') [] None [] None [] 4 3 None False)
        (Element ''part_def'' True (Some ''Foo'') None [] None [] None [] 2 3 None False) ''m.sysml''
     \<in> set (check_file \<lparr>filename = ''m.sysml'', elements =
        [Element ''package'' False (Some ''P'') None [] None
           [Element ''part_def'' True (Some ''Foo'') None [] None [] None [] 2 3 None False,
            Element ''part'' False (Some ''foo'') (Some ''Foo'') [] None [] None [] 3 3 None False,
            Element ''part'' False (Some ''FOO'') (Some ''Foo'') [] None [] None [] 4 3 None False]
           None [] 1 1 None False]\<rparr> None)
   \<and> later_report
        [Element ''part_def'' True (Some ''Foo'') None [] None [] None [] 2 3 None False,
         Element ''part'' False (Some ''foo'') (Some ''Foo'') [] None [] None [] 3 3 None False]
        (Element ''part'' False (Some ''FOO'') (Some ''Foo'') [] None [] None [] 4 3 None False)
        ''m.sysml''
     = [dup_diag (Element ''part'' False (Some ''FOO'') (Some ''Foo'') [] None [] None [] 4 3 None False)
          (Element ''part_def'' True (Some ''Foo'') None [] None [] None [] 2 3 None False) ''m.sysml'']
   \<and> later_report []
        (Element ''part_def'' True (Some ''Foo'') None [] None [] None [] 2 3 None False) ''m.sysml''
     = []"
proof -
  let ?a = "Element ''part_def'' True (Some ''Foo'') None [] None [] None [] 2 3 None False"
  let ?b = "Element ''part'' False (Some ''foo'') (Some ''Foo'') [] None [] None [] 3 3 None False"
  let ?c = "Element ''part'' False (Some ''FOO'') (Some ''Foo'') [] None [] None [] 4 3 None False"
  let ?a' = "Element ''part_def'' True (Some ''Foo'') None [] None [?b] None [] 2 3 None False"
  let ?P = "Element ''package'' False (Some ''P'') None [] None [?a, ?b, ?c] None [] 1 1 None False"
  let ?f = "\<lparr>filename = ''m.sysml'', elements = [?P]\<rparr>"
  have ca: "contributes ?a" "contributes ?b" "contributes ?c" "contributes ?a'"
    by (simp_all add: contributes_def NAMED_KINDS_def)
  have k: "dup_key ?a = dup_key ?b" "dup_key ?a = dup_key ?c" "dup_key ?a' = dup_key ?b"
    by (simp_all add: dup_key_def lower_def lower_char_def in_range_def code_def char_of_nat_eval)
  have ok: "scopes_ok ([] @ ?a # [] @ [])" "scopes_ok (body ?b)" "scopes_ok ([] @ ?a' # [])"
    "dup_key ?a \<notin> set (scope_keys [])"
    by (simp_all add: scope_keys_def)
  have sc: "[] @ ?a # [] @ ?b # [?c] \<in> set (scopes (elements ?f))"
    "[] @ ?a # [?b] @ ?c # [] \<in> set (scopes (elements ?f))"
    by (simp_all add: scopes_def)
  note t1 = duplicate_names_in_scope [where a = ?a and b = ?b and pre = "[]" and mid = "[]"
      and post = "[]" and fn = "''m.sysml''" and f = ?f and es = "[]"]
  note t2 = duplicate_names_in_scope [where a = ?a' and b = ?b and pre = "[]" and mid = "[]"
      and post = "[]" and fn = "''m.sysml''" and f = ?f and es = "[]"]
  note t3 = duplicate_names_in_scope [where a = ?a and b = ?b and pre = "[]" and mid = "[]"
      and post = "[?c]" and fn = "''m.sysml''" and f = ?f and es = "[]"]
  note t4 = duplicate_names_in_scope [where a = ?a and b = ?c and pre = "[]" and mid = "[?b]"
      and post = "[]" and fn = "''m.sysml''" and f = ?f and es = "[]"]
  note t5 = duplicate_names_in_scope [where a = ?a and b = ?a and pre = "[]" and mid = "[]"
      and post = "[]" and fn = "''m.sysml''" and f = ?f and es = "[]"]
  have 1: "filter (\<lambda>d. rule_id d = ''W030'')
     (check_file \<lparr>filename = ''m.sysml'', elements = [] @ ?a # [] @ ?b # []\<rparr> None)
     = [dup_diag ?b ?a ''m.sysml'']"
    using t1 ca k ok by blast
  have 2: "filter (\<lambda>d. rule_id d = ''W030'')
     (check_file \<lparr>filename = ''m.sysml'', elements = [] @ ?a' # []\<rparr> None) = []"
    using t2 ca k ok by simp
  have 3: "dup_diag ?b ?a (filename ?f) \<in> set (check_file ?f None)"
    using t3 ca k ok sc by blast
  have 4: "dup_diag ?c ?a (filename ?f) \<in> set (check_file ?f None)"
    using t4 ca k ok sc by blast
  have 5: "later_report ([] @ ?a # [?b]) ?c ''m.sysml'' = [dup_diag ?c ?a ''m.sysml'']"
    using t4 ca k ok by blast
  have 6: "later_report [] ?a ''m.sysml'' = []"
    using t5 ok by blast
  from 1 2 3 4 5 6 show ?thesis by simp
qed

text \<open>
  The claim as stated fails for empty names, as \<^verbatim>\<open>part ''; part '';\<close> parses: the two
  siblings have equal names and a contributing kind, and no finding is reported.
\<close>

theorem empty_names_not_duplicates:
  "check_file \<lparr>filename = ''m.sysml'', elements =
      [Element ''part'' False (Some []) None [] None [] None [] 1 1 None False,
       Element ''part'' False (Some []) None [] None [] None [] 2 1 None False]\<rparr> None = []"
  by (simp add: check_file_def py_sorted_def collect_diags_def ALL_RULES_def rule_diags_def
      naming_check_def documentation_check_def structure_check_def scope_check_def
      naming_visit_def documentation_visit_def structure_visit_def check_duplicates_def
      check_unused_imports_def contributes_def PACKAGE_KINDS_def DOC_DEF_KINDS_def
      SUBSTANTIVE_DEFS_def TYPED_USAGES_def)

section \<open>Properties of the lexer\<close>

lemma rest_of_Cons:
  assumes "rest_of L = c # r"
  shows "pos L < length (source L)" "source L ! pos L = c" "drop (Suc (pos L)) (source L) = r"
proof -
  from assms have d: "drop (pos L) (source L) = c # r" by (simp add: rest_of_def)
  then show "pos L < length (source L)"
    by (metis drop_all list.distinct(1) not_le)
  with d show "source L ! pos L = c"
    by (metis hd_drop_conv_nth list.sel(1))
  from d show "drop (Suc (pos L)) (source L) = r"
    by (metis drop_Suc list.sel(3) tl_drop)
qed

lemma advance_Cons:
  assumes "rest_of L = c # r" "c \<noteq> CHR 0x0A"
  shows "advance L = moved 1 L" "rest_of (moved 1 L) = r"
  using rest_of_Cons [OF assms(1)] assms(2)
  by (simp_all add: advance_def moved_def rest_of_def)

lemma moved_moved [simp]: "moved m (moved n L) = moved (n + m) L"
  by (simp add: moved_def)

lemma moved_fields [simp]:
  "source (moved n L) = source L" "pos (moved n L) = pos L + n" "l_line (moved n L) = l_line L"
  by (simp_all add: moved_def)

lemma peek_Cons2:
  assumes "rest_of L = c # d # r"
  shows "peek L (Suc 0) = Some d"
proof -
  from assms have "drop (Suc (pos L)) (source L) = d # r"
    using rest_of_Cons(3) by blast
  then have "rest_of (L\<lparr>pos := Suc (pos L)\<rparr>) = d # r" by (simp add: rest_of_def)
  from rest_of_Cons(1,2) [OF this] show ?thesis by (simp add: peek_def)
qed

lemma peek_Cons1:
  assumes "rest_of L = [c]"
  shows "peek L (Suc 0) = None"
proof -
  from assms have "drop (Suc (pos L)) (source L) = []"
    using rest_of_Cons(3) by blast
  then show ?thesis by (simp add: peek_def)
qed

lemma skip_whitespace_none:
  assumes "rest_of L = c # r" "c \<notin> set [CHR '' '', CHR 0x09, CHR 0x0D, CHR 0x0A]"
  shows "skip_whitespace L = L"
  unfolding skip_whitespace_def
  using rest_of_Cons(1,2) [OF assms(1)] assms(2) by (subst adv_while.simps) simp

lemma next_token_operator:
  assumes "rest_of L = c # r"
    and "c \<in> set ''!:=*-.<>?@''"
    and "\<not> (c = CHR ''.'' \<and> (case r of [] \<Rightarrow> False | d # r' \<Rightarrow> isdigit d))"
  shows "next_token L = lex_operator c (l_line L) (l_col L) (moved 1 L)"
proof -
  have nl: "c \<noteq> CHR 0x0A" and ws: "c \<notin> set [CHR '' '', CHR 0x09, CHR 0x0D, CHR 0x0A]"
    using assms(2) by auto
  note f = rest_of_Cons [OF assms(1)]
  have sk: "skip_whitespace L = L" by (rule skip_whitespace_none [OF assms(1) ws])
  have na: "\<not> isalpha c" "\<not> isdigit c" "c \<noteq> CHR ''/''" "c \<noteq> CHR ''_''" "c \<noteq> CHR 0x27" "c \<noteq> CHR 0x22"
    using assms(2) by (auto simp: isalpha_def isdigit_def in_range_def code_def)
  have pd: "\<not> (c = CHR ''.'' \<and> peek_isdigit L)"
  proof (cases r)
    case Nil
    with assms(1) have "peek L 1 = None" by (simp add: peek_Cons1)
    then show ?thesis by (simp add: peek_isdigit_def)
  next
    case (Cons d r')
    with assms(1) have "peek L 1 = Some d" by (simp add: peek_Cons2)
    with assms(3) Cons show ?thesis by (simp add: peek_isdigit_def)
  qed
  have "lex_token L = lex_operator c (l_line L) (l_col L) (advance L)"
    unfolding lex_token_def Let_def using f(2) na pd by auto
  then show ?thesis
    using sk f(1) advance_Cons(1) [OF assms(1) nl] by (simp add: next_token_def)
qed

lemma rest_of_moved: "rest_of (moved n L) = drop n (rest_of L)"
  by (simp add: rest_of_def moved_def add.commute)

lemma advance_moved:
  assumes "n < length (rest_of L)" "rest_of L ! n \<noteq> CHR 0x0A"
  shows "advance (moved n L) = moved (Suc n) L"
proof -
  have "rest_of (moved n L) = rest_of L ! n # drop (Suc n) (rest_of L)"
    using assms(1) by (simp add: rest_of_moved Cons_nth_drop_Suc)
  from advance_Cons(1) [OF this assms(2)] show ?thesis by simp
qed

lemma two_moved:
  assumes "Suc n < length (rest_of L)" "rest_of L ! n \<noteq> CHR 0x0A" "rest_of L ! Suc n \<noteq> CHR 0x0A"
  shows "two (moved n L) = moved (Suc (Suc n)) L"
  using assms by (simp add: two_def advance_moved)

lemma compound_token:
  assumes "(op, ty) \<in> set COMPOUND" "rest_of L = op @ r"
    "\<not> longer_compound_prefix (length op) (op @ r)"
  shows "next_token L = (Token ty op (l_line L) (l_col L), moved (length op) L)"
proof -
  have m: "op = ''!=='' \<and> ty = BANG_EQ_EQ \<or> op = ''::>'' \<and> ty = COLON_COLON_GT
    \<or> op = '':>>'' \<and> ty = COLON_GT_GT \<or> op = ''==='' \<and> ty = EQ_EQ_EQ
    \<or> op = ''!='' \<and> ty = BANG_EQ \<or> op = ''**'' \<and> ty = STAR_STAR
    \<or> op = ''->'' \<and> ty = ARROW \<or> op = ''..'' \<and> ty = DOT_DOT
    \<or> op = ''.?'' \<and> ty = DOT_QUESTION \<or> op = ''::'' \<and> ty = COLON_COLON
    \<or> op = '':='' \<and> ty = COLON_EQ \<or> op = '':>'' \<and> ty = COLON_GT
    \<or> op = ''<='' \<and> ty = LE \<or> op = ''=='' \<and> ty = EQ_EQ
    \<or> op = ''=>'' \<and> ty = FAT_ARROW \<or> op = ''>='' \<and> ty = GE
    \<or> op = ''??'' \<and> ty = QUESTION_QUESTION \<or> op = ''@@'' \<and> ty = AT_AT"
    using assms(1) unfolding COMPOUND_def by simp
  note s = next_token_operator lex_operator_def rest_of_moved startswith_def
        longer_compound_prefix_def COMPOUND_def advance_moved two_moved isdigit_def in_range_def code_def
  from m assms(2,3) show ?thesis
    apply (elim disjE conjE)
    subgoal by (simp add: s)
    subgoal by (simp add: s)
    subgoal by (simp add: s)
    subgoal by (simp add: s)
    subgoal by (simp add: s)
    subgoal by (simp add: s)
    subgoal by (simp add: s)
    subgoal by (simp add: s)
    subgoal by (simp add: s)
    subgoal by (simp add: s)
    subgoal by (simp add: s)
    subgoal by (simp add: s)
    subgoal by (simp add: s)
    subgoal by (simp add: s)
    subgoal by (simp add: s)
    subgoal by (simp add: s)
    subgoal by (simp add: s)
    subgoal by (simp add: s)
    done
qed

lemma fallback_token:
  assumes "(c, ty) \<in> set FALLBACK" "rest_of L = c # r" "\<not> compound_prefix (c # r)"
    "\<not> (c = CHR ''.'' \<and> (case r of [] \<Rightarrow> False | d # r' \<Rightarrow> isdigit d))"
  shows "next_token L = (Token ty [c] (l_line L) (l_col L), moved 1 L)"
proof -
  have m: "c = CHR '':'' \<and> ty = COLON \<or> c = CHR ''='' \<and> ty = EQ \<or> c = CHR ''*'' \<and> ty = STAR
    \<or> c = CHR ''-'' \<and> ty = MINUS \<or> c = CHR ''.'' \<and> ty = DOT \<or> c = CHR ''<'' \<and> ty = LT
    \<or> c = CHR ''>'' \<and> ty = GT \<or> c = CHR ''?'' \<and> ty = QUESTION
    \<or> c = CHR ''@'' \<and> ty = AT_SIGN \<or> c = CHR ''!'' \<and> ty = IDENTIFIER"
    using assms(1) unfolding FALLBACK_def by simp
  note s = next_token_operator lex_operator_def rest_of_moved startswith_def
        compound_prefix_def COMPOUND_def
  from m assms(2,3,4) show ?thesis
    apply (elim disjE conjE)
    subgoal by (simp add: s)
    subgoal by (simp add: s)
    subgoal by (simp add: s)
    subgoal by (simp add: s)
    subgoal by (simp add: s)
    subgoal by (simp add: s)
    subgoal by (simp add: s)
    subgoal by (simp add: s)
    subgoal by (simp add: s)
    subgoal by (simp add: s)
    done
qed

lemma bang_token:
  assumes "rest_of L = CHR ''!'' # r" "\<not> startswith r ''=''"
  shows "next_token L = (Token IDENTIFIER ''!'' (l_line L) (l_col L), moved 1 L)"
  using assms
  by (cases r) (simp_all add: next_token_operator lex_operator_def rest_of_moved startswith_def)

lemma lex_operator_other:
  assumes "c \<notin> set ''!:=*-.<>?@''"
  shows "t_type (fst (lex_operator c ln cl M)) \<notin> set SINGLE_CHAR_OPERATORS"
  using assms by (simp add: lex_operator_def SINGLE_def SINGLE_CHAR_OPERATORS_def)

lemma lex_token_other:
  assumes "source L ! pos L \<notin> set ''!:=*-.<>?@''"
  shows "t_type (fst (lex_token L)) \<notin> set SINGLE_CHAR_OPERATORS"
proof -
  have "t_type (fst (lex_token L)) \<in> {LINE_COMMENT, BLOCK_COMMENT, IDENTIFIER, REAL, INTEGER,
      STRING, DOUBLE_STRING} \<or> (\<exists>v. t_type (fst (lex_token L)) = KW v)
      \<or> t_type (fst (lex_token L))
          = t_type (fst (lex_operator (source L ! pos L) (l_line L) (l_col L) (advance L)))"
    by (simp add: lex_token_def Let_def lex_number_def lex_string_def keyword_lookup_def)
  then show ?thesis
    using lex_operator_other [OF assms, of "l_line L" "l_col L" "advance L"]
    by (auto simp: SINGLE_CHAR_OPERATORS_def)
qed

lemma next_token_lex_token:
  assumes "rest_of L = c # r" "c \<notin> set [CHR '' '', CHR 0x09, CHR 0x0D, CHR 0x0A]"
  shows "next_token L = lex_token L"
  using skip_whitespace_none [OF assms] rest_of_Cons(1) [OF assms(1)]
  by (simp add: next_token_def)

lemma single_only_without_compound:
  assumes "rest_of L = c # r" "c \<notin> set [CHR '' '', CHR 0x09, CHR 0x0D, CHR 0x0A]"
    "t_type (fst (next_token L)) \<in> set SINGLE_CHAR_OPERATORS"
  shows "\<not> compound_prefix (c # r)"
proof (cases "c \<in> set ''!:=*-.<>?@''")
  case False
  then have "source L ! pos L \<notin> set ''!:=*-.<>?@''"
    using rest_of_Cons(2) [OF assms(1)] by simp
  from lex_token_other [OF this] assms(3) show ?thesis
    by (simp add: next_token_lex_token [OF assms(1,2)])
next
  case True
  show ?thesis
  proof (cases "c = CHR ''.'' \<and> (case r of [] \<Rightarrow> False | d # r' \<Rightarrow> isdigit d)")
    case dot: True
    then obtain d r' where r: "r = d # r'" "isdigit d" by (auto split: list.splits)
    with assms(1) dot have "peek_isdigit L"
      using peek_Cons2 [of L c d r'] by (simp add: peek_isdigit_def)
    with dot rest_of_Cons(2) [OF assms(1)]
    have "lex_token L = lex_number (l_line L) (l_col L) L"
      by (simp add: lex_token_def Let_def isalpha_def isdigit_def in_range_def code_def)
    with assms(3) show ?thesis
      by (auto simp: next_token_lex_token [OF assms(1,2)] lex_number_def Let_def
          SINGLE_CHAR_OPERATORS_def split: if_splits)
  next
    case nodot: False
    have e: "next_token L = lex_operator c (l_line L) (l_col L) (moved 1 L)"
      by (rule next_token_operator [OF assms(1) True nodot])
    have m: "c = CHR ''!'' \<or> c = CHR '':'' \<or> c = CHR ''='' \<or> c = CHR ''*'' \<or> c = CHR ''-''
      \<or> c = CHR ''.'' \<or> c = CHR ''<'' \<or> c = CHR ''>'' \<or> c = CHR ''?'' \<or> c = CHR ''@''"
      using True by simp
    note s = lex_operator_def rest_of_moved startswith_def compound_prefix_def COMPOUND_def
      SINGLE_CHAR_OPERATORS_def
    from m assms(1) assms(3) [unfolded e] show ?thesis
      apply (elim disjE)
      subgoal by (simp add: s split: if_splits)
      subgoal by (simp add: s split: if_splits)
      subgoal by (simp add: s split: if_splits)
      subgoal by (simp add: s split: if_splits)
      subgoal by (simp add: s split: if_splits)
      subgoal by (simp add: s split: if_splits)
      subgoal by (simp add: s split: if_splits)
      subgoal by (simp add: s split: if_splits)
      subgoal by (simp add: s split: if_splits)
      subgoal by (simp add: s split: if_splits)
      done
  qed
qed

lemma adv_while_idem: "adv_while P (adv_while P L) = adv_while P L"
proof (induction P L rule: adv_while.induct)
  case (1 P L)
  show ?case
  proof (cases "pos L < length (source L) \<and> P (source L ! pos L)")
    case True
    then have "adv_while P L = adv_while P (advance L)"
      by (subst adv_while.simps) auto
    with 1 True show ?thesis by simp
  next
    case False
    then have "adv_while P L = L" by (subst adv_while.simps) auto
    then show ?thesis by simp
  qed
qed

lemma adv_while_stops:
  "pos (adv_while P L) < length (source (adv_while P L))
   \<Longrightarrow> \<not> P (source (adv_while P L) ! pos (adv_while P L))"
proof (induction P L rule: adv_while.induct)
  case (1 P L)
  show ?case
  proof (cases "pos L < length (source L) \<and> P (source L ! pos L)")
    case True
    then have "adv_while P L = adv_while P (advance L)"
      by (subst adv_while.simps) auto
    with 1 True show ?thesis by simp
  next
    case False
    then have "adv_while P L = L" by (subst adv_while.simps) auto
    with False 1(2) show ?thesis by simp
  qed
qed

lemma next_token_skips:
  "next_token L = next_token (skip_whitespace L)"
  by (simp add: next_token_def skip_whitespace_def adv_while_idem)

lemma after_whitespace:
  assumes "rest_of (skip_whitespace L) = c # r"
  shows "c \<notin> set [CHR '' '', CHR 0x09, CHR 0x0D, CHR 0x0A]"
  using rest_of_Cons(1,2) [OF assms]
    adv_while_stops [of "\<lambda>c. c \<in> set [CHR '' '', CHR 0x09, CHR 0x0D, CHR 0x0A]" L]
  unfolding skip_whitespace_def by simp

lemma rest_of_init: "rest_of (init_lexer s) = s"
  by (simp add: rest_of_def init_lexer_def)

lemma tokenize_first:
  assumes "next_token (init_lexer s) = (tok, L')" "t_type tok \<noteq> EOF"
  shows "hd (tokenize s) = tok"
  using assms unfolding tokenize_def by (subst tokenize_from.simps) simp

text \<open>
  Claim C8. At every position of every text, \<open>next_token\<close> first skips the white
  space. Where the text then starts with a compound operator and with no longer one, the
  token is that compound operator, with its spelling, at that position (so \<^verbatim>\<open>::>\<close> is one
  \<open>COLON_COLON_GT\<close>, \<^verbatim>\<open>:>>\<close> one \<open>COLON_GT_GT\<close> and \<^verbatim>\<open>..\<close> one \<open>DOT_DOT\<close>), and it is the
  first token of \<open>tokenize\<close> when the text starts there. Where the text starts with an
  operator character and with no compound operator (and not with a point before a
  digit, which starts a number), the token is the single-character one; a
  single-character operator token is only ever produced where no compound operator
  starts. An exclamation mark that no \<^verbatim>\<open>=\<close> follows gives an \<open>IDENTIFIER\<close> token.
\<close>

theorem operators_longest_match:
  "next_token L = next_token (skip_whitespace L)
   \<and> (rest_of (skip_whitespace L) = c # r
        \<longrightarrow> c \<notin> set [CHR '' '', CHR 0x09, CHR 0x0D, CHR 0x0A])
   \<and> ((op, ty) \<in> set COMPOUND \<and> rest_of L = op @ r
        \<and> \<not> longer_compound_prefix (length op) (op @ r)
       \<longrightarrow> next_token L = (Token ty op (l_line L) (l_col L), moved (length op) L))
   \<and> ((op, ty) \<in> set COMPOUND \<and> \<not> longer_compound_prefix (length op) (op @ r)
       \<longrightarrow> hd (tokenize (op @ r)) = Token ty op 1 1)
   \<and> ((c, ty) \<in> set FALLBACK \<and> rest_of L = c # r \<and> \<not> compound_prefix (c # r)
        \<and> \<not> (c = CHR ''.'' \<and> (case r of [] \<Rightarrow> False | d # r' \<Rightarrow> isdigit d))
       \<longrightarrow> next_token L = (Token ty [c] (l_line L) (l_col L), moved 1 L))
   \<and> (rest_of L = c # r \<and> c \<notin> set [CHR '' '', CHR 0x09, CHR 0x0D, CHR 0x0A]
        \<and> t_type (fst (next_token L)) \<in> set SINGLE_CHAR_OPERATORS
       \<longrightarrow> \<not> compound_prefix (c # r))
   \<and> (rest_of L = CHR ''!'' # r \<and> \<not> startswith r ''=''
       \<longrightarrow> next_token L = (Token IDENTIFIER ''!'' (l_line L) (l_col L), moved 1 L))"
proof (intro conjI impI)
  show "next_token L = next_token (skip_whitespace L)"
    by (rule next_token_skips)
next
  assume "rest_of (skip_whitespace L) = c # r"
  then show "c \<notin> set [CHR '' '', CHR 0x09, CHR 0x0D, CHR 0x0A]"
    by (rule after_whitespace)
next
  assume "(op, ty) \<in> set COMPOUND \<and> rest_of L = op @ r
        \<and> \<not> longer_compound_prefix (length op) (op @ r)"
  then show "next_token L = (Token ty op (l_line L) (l_col L), moved (length op) L)"
    using compound_token by blast
next
  assume h: "(op, ty) \<in> set COMPOUND \<and> \<not> longer_compound_prefix (length op) (op @ r)"
  then have "next_token (init_lexer (op @ r))
      = (Token ty op (l_line (init_lexer (op @ r))) (l_col (init_lexer (op @ r))),
         moved (length op) (init_lexer (op @ r)))"
    using compound_token [of op ty "init_lexer (op @ r)" r] rest_of_init [of "op @ r"] by blast
  moreover have "ty \<noteq> EOF"
    using h by (auto simp: COMPOUND_def)
  ultimately show "hd (tokenize (op @ r)) = Token ty op 1 1"
    using tokenize_first [of "op @ r" "Token ty op 1 1"] by (simp add: init_lexer_def)
next
  assume "(c, ty) \<in> set FALLBACK \<and> rest_of L = c # r \<and> \<not> compound_prefix (c # r)
        \<and> \<not> (c = CHR ''.'' \<and> (case r of [] \<Rightarrow> False | d # r' \<Rightarrow> isdigit d))"
  then show "next_token L = (Token ty [c] (l_line L) (l_col L), moved 1 L)"
    using fallback_token by blast
next
  assume "rest_of L = c # r \<and> c \<notin> set [CHR '' '', CHR 0x09, CHR 0x0D, CHR 0x0A]
        \<and> t_type (fst (next_token L)) \<in> set SINGLE_CHAR_OPERATORS"
  then show "\<not> compound_prefix (c # r)"
    using single_only_without_compound by blast
next
  assume "rest_of L = CHR ''!'' # r \<and> \<not> startswith r ''=''"
  then show "next_token L = (Token IDENTIFIER ''!'' (l_line L) (l_col L), moved 1 L)"
    using bang_token by blast
qed

theorem operators_longest_match_witness:
  "next_token (init_lexer ''::>x'')
     = (Token COLON_COLON_GT ''::>'' 1 1, moved (length ''::>'') (init_lexer ''::>x''))
   \<and> hd (tokenize ('':>>'' @ ''x'')) = Token COLON_GT_GT '':>>'' 1 1
   \<and> next_token (init_lexer '':x'') = (Token COLON '':'' 1 1, moved 1 (init_lexer '':x''))
   \<and> next_token (init_lexer ''!x'') = (Token IDENTIFIER ''!'' 1 1, moved 1 (init_lexer ''!x''))"
proof -
  have c: "(''::>'', COLON_COLON_GT) \<in> set COMPOUND" "('':>>'', COLON_GT_GT) \<in> set COMPOUND"
    by (simp_all add: COMPOUND_def)
  have n: "\<not> longer_compound_prefix (length ''::>'') (''::>'' @ ''x'')"
    "\<not> longer_compound_prefix (length '':>>'') ('':>>'' @ ''x'')"
    "\<not> compound_prefix (CHR '':'' # ''x'')"
    "\<not> (CHR '':'' = CHR ''.'' \<and> (case ''x'' of [] \<Rightarrow> False | d # r' \<Rightarrow> isdigit d))"
    by (simp_all add: longer_compound_prefix_def compound_prefix_def COMPOUND_def startswith_def)
  have f: "(CHR '':'', COLON) \<in> set FALLBACK"
    by (simp add: FALLBACK_def)
  have r: "rest_of (init_lexer ''::>x'') = ''::>'' @ ''x''"
    "rest_of (init_lexer '':x'') = CHR '':'' # ''x''"
    "rest_of (init_lexer ''!x'') = CHR ''!'' # ''x''" "\<not> startswith ''x'' ''=''"
    by (simp_all add: rest_of_init startswith_def)
  have l: "l_line (init_lexer s) = 1" "l_col (init_lexer s) = 1" for s
    by (simp_all add: init_lexer_def)
  have 1: "next_token (init_lexer ''::>x'')
     = (Token COLON_COLON_GT ''::>'' (l_line (init_lexer ''::>x'')) (l_col (init_lexer ''::>x'')),
        moved (length ''::>'') (init_lexer ''::>x''))"
    using operators_longest_match [of "init_lexer ''::>x''" "CHR ''x''" "''x''" "''::>''" COLON_COLON_GT]
      c(1) n(1) r(1) by blast
  have 2: "hd (tokenize ('':>>'' @ ''x'')) = Token COLON_GT_GT '':>>'' 1 1"
    using operators_longest_match [of "init_lexer '':x''" "CHR '':''" "''x''" "'':>>''" COLON_GT_GT]
      c(2) n(2) by blast
  have 3: "next_token (init_lexer '':x'')
     = (Token COLON [CHR '':''] (l_line (init_lexer '':x'')) (l_col (init_lexer '':x'')),
        moved 1 (init_lexer '':x''))"
    using operators_longest_match [of "init_lexer '':x''" "CHR '':''" "''x''" "'':>>''" COLON]
      f n(3,4) r(2) by blast
  have 4: "next_token (init_lexer ''!x'')
     = (Token IDENTIFIER ''!'' (l_line (init_lexer ''!x'')) (l_col (init_lexer ''!x'')),
        moved 1 (init_lexer ''!x''))"
    using operators_longest_match [of "init_lexer ''!x''" "CHR '':''" "''x''" "'':>>''" COLON]
      r(3,4) by blast
  show ?thesis
    unfolding 1 2 3 4 l by simp
qed

section \<open>Properties of the parser\<close>

text \<open>More fuel does not change a result.\<close>

lemma fuel_Suc:
  "(\<forall>ts top_level elems p r. parse_body n ts top_level elems p = Some r
       \<longrightarrow> parse_body (Suc n) ts top_level elems p = Some r)
   \<and> (\<forall>ts pending p r. parse_element n ts pending p = Some r
       \<longrightarrow> parse_element (Suc n) ts pending p = Some r)
   \<and> (\<forall>ts elem p r. parse_element_tail n ts elem p = Some r
       \<longrightarrow> parse_element_tail (Suc n) ts elem p = Some r)"
proof (induction n)
  case 0
  show ?case by simp
next
  case (Suc n)
  then have b: "\<And>ts top_level elems p r. parse_body n ts top_level elems p = Some r
       \<Longrightarrow> parse_body (Suc n) ts top_level elems p = Some r"
    and e: "\<And>ts pending p r. parse_element n ts pending p = Some r
       \<Longrightarrow> parse_element (Suc n) ts pending p = Some r"
    and t: "\<And>ts elem p r. parse_element_tail n ts elem p = Some r
       \<Longrightarrow> parse_element_tail (Suc n) ts elem p = Some r"
    by blast+
  have body: "parse_body (Suc (Suc n)) ts top_level elems p = Some r"
    if h: "parse_body (Suc n) ts top_level elems p = Some r" for ts top_level elems p r
  proof -
    obtain pending p1 where pl: "pending_loop ts None p = (pending, p1)"
      by (cases "pending_loop ts None p")
    show ?thesis
    proof (cases "at ts p [EOF] \<or> (\<not> top_level \<and> at ts p [RBRACE])
        \<or> at ts p1 [EOF] \<or> (\<not> top_level \<and> at ts p1 [RBRACE])")
      case True
      with h pl show ?thesis
        by (subst parse_body.simps, subst (asm) parse_body.simps) (auto split: if_splits)
    next
      case False
      with h pl obtain eo p2 where pe: "parse_element n ts pending p1 = Some (eo, p2)"
        by (subst (asm) parse_body.simps) (auto split: option.splits)
      then have pe': "parse_element (Suc n) ts pending p1 = Some (eo, p2)" by (rule e)
      show ?thesis
      proof (cases eo)
        case None
        with h pl False pe have "parse_body n ts top_level elems p2 = Some r"
          by (subst (asm) parse_body.simps) auto
        then have "parse_body (Suc n) ts top_level elems p2 = Some r" by (rule b)
        with pl False pe' None show ?thesis
          by (subst parse_body.simps) auto
      next
        case (Some elem)
        with h pl False pe have "parse_body n ts top_level (elems @ [elem]) p2 = Some r"
          by (subst (asm) parse_body.simps) auto
        then have "parse_body (Suc n) ts top_level (elems @ [elem]) p2 = Some r" by (rule b)
        with pl False pe' Some show ?thesis
          by (subst parse_body.simps) auto
      qed
    qed
  qed
  have element: "parse_element (Suc (Suc n)) ts pending p = Some r"
    if h: "parse_element (Suc n) ts pending p = Some r" for ts pending p r
  proof (cases "element_start ts pending p")
    case (Finished result p')
    with h show ?thesis
      by (subst parse_element.simps, subst (asm) parse_element.simps) simp
  next
    case (NeedsTail elem p')
    with h obtain r' where pt: "parse_element_tail n ts elem p' = Some r'"
      by (subst (asm) parse_element.simps) (auto split: option.splits)
    then have "parse_element_tail (Suc n) ts elem p' = Some r'" by (rule t)
    with h NeedsTail pt show ?thesis
      by (subst parse_element.simps, subst (asm) parse_element.simps) simp
  qed
  have tail: "parse_element_tail (Suc (Suc n)) ts elem p = Some r"
    if h: "parse_element_tail (Suc n) ts elem p = Some r" for ts elem p r
  proof (cases "tail_start ts elem p")
    case (TailDone elem' p')
    with h show ?thesis
      by (subst parse_element_tail.simps, subst (asm) parse_element_tail.simps) simp
  next
    case (TailBody elem' p')
    with h obtain r' where pb: "parse_body n ts False [] p' = Some r'"
      by (subst (asm) parse_element_tail.simps) (auto split: option.splits)
    then have "parse_body (Suc n) ts False [] p' = Some r'" by (rule b)
    with h TailBody pb show ?thesis
      by (subst parse_element_tail.simps, subst (asm) parse_element_tail.simps) simp
  qed
  from body element tail show ?case by blast
qed

lemma parse_body_fuel_mono:
  assumes "parse_body n ts top_level elems p = Some r" "n \<le> m"
  shows "parse_body m ts top_level elems p = Some r"
  using assms(2,1)
proof (induction m rule: dec_induct)
  case base
  then show ?case .
next
  case (step k)
  then show ?case using fuel_Suc [of k] by blast
qed

lemma parse_fuel_mono:
  assumes "parse n tokens fname = Some f" "n \<le> m"
  shows "parse m tokens fname = Some f"
proof -
  from assms(1) obtain elems p where
    b: "parse_body n (init_tokens tokens) True [] 0 = Some (elems, p)"
    and f: "f = \<lparr>filename = fname, elements = elems\<rparr>"
    by (auto simp: parse_def split: option.splits)
  from parse_body_fuel_mono [OF b assms(2)] f show ?thesis
    by (simp add: parse_def)
qed

lemma parse_body_top_rbrace:
  "parse_body n [Token RBRACE v l c, Token EOF w l' c'] True [] 0 = None"
proof (induction n rule: less_induct)
  case (less n)
  show ?case
  proof (cases n)
    case 0
    then show ?thesis by simp
  next
    case (Suc m)
    have pl: "pending_loop [Token RBRACE v l c, Token EOF w l' c'] None 0 = (None, 0)"
      by (subst pending_loop.simps) (simp add: at_def cur_def)
    show ?thesis
    proof (cases m)
      case 0
      with Suc pl show ?thesis by (simp add: at_def cur_def)
    next
      case (Suc k)
      have ml: "modifiers_loop [Token RBRACE v l c, Token EOF w l' c'] [] 0 = ([], 0)"
        by (subst modifiers_loop.simps) (simp add: at_def cur_def PREFIX_MODIFIERS_def)
      have es: "element_start [Token RBRACE v l c, Token EOF w l' c'] None 0 = Finished None 0"
        by (simp add: element_start_def element_general_def ml at_def cur_def VISIBILITY_def
            SEQUENCE_KEYWORDS_def DIRECTION_KEYWORDS_def BODY_ONLY_KEYWORDS_def
            ELEMENT_KEYWORDS_def Let_def)
      have "parse_body m [Token RBRACE v l c, Token EOF w l' c'] True [] 0 = None"
        using less \<open>n = Suc m\<close> by simp
      with \<open>n = Suc m\<close> Suc pl es show ?thesis by (simp add: at_def cur_def)
    qed
  qed
qed

text \<open>
  Claim C2. The text \<^verbatim>\<open>}\<close> gives the tokens RBRACE and end-of-stream, and parsing them
  returns with no amount of fuel: at the top level the loop of \<open>parse_body\<close> does not
  stop at a closing brace, and \<open>parse_element\<close> returns no element there without moving
  the position, so the loop repeats in the same state for ever.
\<close>

theorem parse_top_level_rbrace_never_returns:
  "tokenize ''}'' = [Token RBRACE ''}'' 1 1, Token EOF [] 1 2]
   \<and> (\<forall>n. parse n [Token RBRACE ''}'' 1 1, Token EOF [] 1 2] ''m.sysml'' = None)"
proof
  show "tokenize ''}'' = [Token RBRACE ''}'' 1 1, Token EOF [] 1 2]"
    by code_simp
  show "\<forall>n. parse n [Token RBRACE ''}'' 1 1, Token EOF [] 1 2] ''m.sysml'' = None"
    by (simp add: parse_def init_tokens_def parse_body_top_rbrace)
qed

lemma parse_drops_line_comments:
  "parse n ts fname = parse n (filter (\<lambda>t. t_type t \<noteq> LINE_COMMENT) ts) fname"
  by (simp add: parse_def init_tokens_def)

lemma tokenize_comment_rbrace:
  "tokenize (''// c'' @ [CHR 0x0A] @ ''}'') =
    [Token LINE_COMMENT ''// c'' 1 1, Token RBRACE ''}'' 2 1, Token EOF [] 2 2]"
  by code_simp

lemma tokenize_trailing_comment:
  "tokenize ''part def Engine; // c'' =
    [Token (KW ''part'') ''part'' 1 1, Token (KW ''def'') ''def'' 1 6,
     Token IDENTIFIER ''Engine'' 1 10, Token SEMI '';'' 1 16,
     Token LINE_COMMENT ''// c'' 1 18, Token EOF [] 1 22]"
  by code_simp

lemma parse_trailing_comment:
  "parse_body 3
     [Token (KW ''part'') ''part'' 1 1, Token (KW ''def'') ''def'' 1 6,
      Token IDENTIFIER ''Engine'' 1 10, Token SEMI '';'' 1 16, Token EOF [] 1 22] True [] 0 =
   Some ([Element ''part_def'' True (Some ''Engine'') None [] None [] None [] 1 1 None False], 4)"
  by code_simp

text \<open>
  Claim C10. \<^verbatim>\<open>Parser.__init__\<close> drops the line-comment tokens before anything reads the
  list, so parsing a token list and parsing it with its line-comment tokens removed give
  the same result with any fuel, and the text \<^verbatim>\<open>part def Engine; // c\<close> parses to the
  same file with and without its line comment. But the result is not a file for every
  token list. The text of a line comment, a line feed and a closing brace gives the tokens
  LINE_COMMENT, RBRACE and end-of-stream; parsing them returns with no amount of fuel,
  and so does parsing them without the line comment: the closing brace stands at the top
  level, where the parser repeats in the same state for ever, as under claim C2.
\<close>

theorem line_comment_before_top_level_rbrace:
  "tokenize (''// c'' @ [CHR 0x0A] @ ''}'') =
     [Token LINE_COMMENT ''// c'' 1 1, Token RBRACE ''}'' 2 1, Token EOF [] 2 2]
   \<and> (\<forall>n. parse n [Token LINE_COMMENT ''// c'' 1 1, Token RBRACE ''}'' 2 1, Token EOF [] 2 2]
            fname = None)
   \<and> filter (\<lambda>t. t_type t \<noteq> LINE_COMMENT)
        [Token LINE_COMMENT ''// c'' 1 1, Token RBRACE ''}'' 2 1, Token EOF [] 2 2]
      = [Token RBRACE ''}'' 2 1, Token EOF [] 2 2]
   \<and> (\<forall>n. parse n [Token RBRACE ''}'' 2 1, Token EOF [] 2 2] fname = None)
   \<and> (\<forall>n ts. parse n ts fname = parse n (filter (\<lambda>t. t_type t \<noteq> LINE_COMMENT) ts) fname)
   \<and> parse 3 (tokenize ''part def Engine; // c'') fname
      = Some \<lparr>filename = fname, elements =
          [Element ''part_def'' True (Some ''Engine'') None [] None [] None [] 1 1 None False]\<rparr>
   \<and> parse 3 (filter (\<lambda>t. t_type t \<noteq> LINE_COMMENT) (tokenize ''part def Engine; // c'')) fname
      = Some \<lparr>filename = fname, elements =
          [Element ''part_def'' True (Some ''Engine'') None [] None [] None [] 1 1 None False]\<rparr>"
proof (intro conjI allI)
  show "tokenize (''// c'' @ [CHR 0x0A] @ ''}'') =
     [Token LINE_COMMENT ''// c'' 1 1, Token RBRACE ''}'' 2 1, Token EOF [] 2 2]"
    by (rule tokenize_comment_rbrace)
next
  fix n
  show "parse n [Token LINE_COMMENT ''// c'' 1 1, Token RBRACE ''}'' 2 1, Token EOF [] 2 2]
            fname = None"
    by (simp add: parse_def init_tokens_def parse_body_top_rbrace)
next
  show "filter (\<lambda>t. t_type t \<noteq> LINE_COMMENT)
        [Token LINE_COMMENT ''// c'' 1 1, Token RBRACE ''}'' 2 1, Token EOF [] 2 2]
      = [Token RBRACE ''}'' 2 1, Token EOF [] 2 2]"
    by simp
next
  fix n
  show "parse n [Token RBRACE ''}'' 2 1, Token EOF [] 2 2] fname = None"
    by (simp add: parse_def init_tokens_def parse_body_top_rbrace)
next
  fix n ts
  show "parse n ts fname = parse n (filter (\<lambda>t. t_type t \<noteq> LINE_COMMENT) ts) fname"
    by (rule parse_drops_line_comments)
next
  show "parse 3 (tokenize ''part def Engine; // c'') fname
      = Some \<lparr>filename = fname, elements =
          [Element ''part_def'' True (Some ''Engine'') None [] None [] None [] 1 1 None False]\<rparr>"
    unfolding tokenize_trailing_comment
    by (simp add: parse_def init_tokens_def parse_trailing_comment)
next
  show "parse 3 (filter (\<lambda>t. t_type t \<noteq> LINE_COMMENT) (tokenize ''part def Engine; // c'')) fname
      = Some \<lparr>filename = fname, elements =
          [Element ''part_def'' True (Some ''Engine'') None [] None [] None [] 1 1 None False]\<rparr>"
    unfolding tokenize_trailing_comment
    by (simp add: parse_def init_tokens_def parse_trailing_comment)
qed

section \<open>Tokenizer, parser and checker together\<close>

lemma tokenize_engine:
  "tokenize ''part def Engine { part def Turbine; }'' =
    [Token (KW ''part'') ''part'' 1 1, Token (KW ''def'') ''def'' 1 6,
     Token IDENTIFIER ''Engine'' 1 10, Token LBRACE ''{'' 1 17,
     Token (KW ''part'') ''part'' 1 19, Token (KW ''def'') ''def'' 1 24,
     Token IDENTIFIER ''Turbine'' 1 28, Token SEMI '';'' 1 35,
     Token RBRACE ''}'' 1 37, Token EOF [] 1 38]"
  by code_simp

lemma parse_body_engine:
  "parse_body 6
     (init_tokens
       [Token (KW ''part'') ''part'' 1 1, Token (KW ''def'') ''def'' 1 6,
        Token IDENTIFIER ''Engine'' 1 10, Token LBRACE ''{'' 1 17,
        Token (KW ''part'') ''part'' 1 19, Token (KW ''def'') ''def'' 1 24,
        Token IDENTIFIER ''Turbine'' 1 28, Token SEMI '';'' 1 35,
        Token RBRACE ''}'' 1 37, Token EOF [] 1 38])
     True [] 0 =
   Some ([Element ''part_def'' True (Some ''Engine'') None [] None
           [Element ''part_def'' True (Some ''Turbine'') None [] None [] None [] 1 19 None False]
           None [] 1 1 None False], 9)"
  by code_simp

lemma check_engine:
  "check_file \<lparr>filename = fname, elements =
      [Element ''part_def'' True (Some ''Engine'') None [] None
        [Element ''part_def'' True (Some ''Turbine'') None [] None [] None [] 1 19 None False]
        None [] 1 1 None False]\<rparr> None =
    [diag ''W010'' INFO (ustr (''Definition '' @ [CHR 0x27] @ ''Engine'' @ [CHR 0x27] @ '' has no doc block.''))
       fname 1 1,
     diag ''W010'' INFO (ustr (''Definition '' @ [CHR 0x27] @ ''Turbine'' @ [CHR 0x27] @ '' has no doc block.''))
       fname 1 19,
     diag ''W020'' INFO (ustr (''Definition '' @ [CHR 0x27] @ ''Turbine'' @ [CHR 0x27] @ '' has an empty body.''))
       fname 1 19]"
  by (simp add: check_file_def py_sorted_def collect_diags_def ALL_RULES_def rule_diags_def
      naming_check_def documentation_check_def structure_check_def scope_check_def
      naming_visit_def documentation_visit_def structure_visit_def check_duplicates_def
      check_unused_imports_def contributes_def PACKAGE_KINDS_def DOC_DEF_KINDS_def
      NAMING_DEF_KINDS_def SUBSTANTIVE_DEFS_def TYPED_USAGES_def NAMED_KINDS_def is_quoted_def
      startswith_def ascii_upper_def ascii_lower_def ascii_alnum_def star_dollar_def
      in_range_def code_def has_doc_def real_body_def dup_key_def lower_def lower_char_def
      char_of_nat_eval diag_key_def diag_def)

text \<open>
  Claim C1. The text \<^verbatim>\<open>part def Engine { part def Turbine; }\<close> gives the ten tokens PART,
  DEF, IDENTIFIER Engine, LBRACE, PART, DEF, IDENTIFIER Turbine, SEMI, RBRACE and the
  end-of-stream token. Parsing them returns, with any fuel from six units on, the file
  with the one element \<^verbatim>\<open>part_def\<close> Engine whose body is the one element \<^verbatim>\<open>part_def\<close>
  Turbine with an empty body. \<open>check_file\<close> on that file, without a set of rule ids,
  returns exactly three findings, all of severity info: no doc block for Engine, no doc
  block for Turbine, and an empty body for Turbine; none is a naming finding.
\<close>

theorem end_to_end_engine:
  "tokenize ''part def Engine { part def Turbine; }'' =
    [Token (KW ''part'') ''part'' 1 1, Token (KW ''def'') ''def'' 1 6,
     Token IDENTIFIER ''Engine'' 1 10, Token LBRACE ''{'' 1 17,
     Token (KW ''part'') ''part'' 1 19, Token (KW ''def'') ''def'' 1 24,
     Token IDENTIFIER ''Turbine'' 1 28, Token SEMI '';'' 1 35,
     Token RBRACE ''}'' 1 37, Token EOF [] 1 38]
   \<and> (\<forall>n\<ge>6. parse n (tokenize ''part def Engine { part def Turbine; }'') fname =
        Some \<lparr>filename = fname, elements =
          [Element ''part_def'' True (Some ''Engine'') None [] None
            [Element ''part_def'' True (Some ''Turbine'') None [] None [] None [] 1 19 None False]
            None [] 1 1 None False]\<rparr>)
   \<and> check_file \<lparr>filename = fname, elements =
        [Element ''part_def'' True (Some ''Engine'') None [] None
          [Element ''part_def'' True (Some ''Turbine'') None [] None [] None [] 1 19 None False]
          None [] 1 1 None False]\<rparr> None =
      [diag ''W010'' INFO (ustr (''Definition '' @ [CHR 0x27] @ ''Engine'' @ [CHR 0x27] @ '' has no doc block.''))
         fname 1 1,
       diag ''W010'' INFO (ustr (''Definition '' @ [CHR 0x27] @ ''Turbine'' @ [CHR 0x27] @ '' has no doc block.''))
         fname 1 19,
       diag ''W020'' INFO (ustr (''Definition '' @ [CHR 0x27] @ ''Turbine'' @ [CHR 0x27] @ '' has an empty body.''))
         fname 1 19]"
proof (intro conjI allI impI)
  show "tokenize ''part def Engine { part def Turbine; }'' =
    [Token (KW ''part'') ''part'' 1 1, Token (KW ''def'') ''def'' 1 6,
     Token IDENTIFIER ''Engine'' 1 10, Token LBRACE ''{'' 1 17,
     Token (KW ''part'') ''part'' 1 19, Token (KW ''def'') ''def'' 1 24,
     Token IDENTIFIER ''Turbine'' 1 28, Token SEMI '';'' 1 35,
     Token RBRACE ''}'' 1 37, Token EOF [] 1 38]"
    by (rule tokenize_engine)
next
  fix n :: nat
  assume "6 \<le> n"
  have "parse 6 (tokenize ''part def Engine { part def Turbine; }'') fname =
        Some \<lparr>filename = fname, elements =
          [Element ''part_def'' True (Some ''Engine'') None [] None
            [Element ''part_def'' True (Some ''Turbine'') None [] None [] None [] 1 19 None False]
            None [] 1 1 None False]\<rparr>"
    unfolding tokenize_engine parse_def parse_body_engine by simp
  from parse_fuel_mono [OF this \<open>6 \<le> n\<close>]
  show "parse n (tokenize ''part def Engine { part def Turbine; }'') fname =
        Some \<lparr>filename = fname, elements =
          [Element ''part_def'' True (Some ''Engine'') None [] None
            [Element ''part_def'' True (Some ''Turbine'') None [] None [] None [] 1 19 None False]
            None [] 1 1 None False]\<rparr>" .
next
  show "check_file \<lparr>filename = fname, elements =
        [Element ''part_def'' True (Some ''Engine'') None [] None
          [Element ''part_def'' True (Some ''Turbine'') None [] None [] None [] 1 19 None False]
          None [] 1 1 None False]\<rparr> None =
      [diag ''W010'' INFO (ustr (''Definition '' @ [CHR 0x27] @ ''Engine'' @ [CHR 0x27] @ '' has no doc block.''))
         fname 1 1,
       diag ''W010'' INFO (ustr (''Definition '' @ [CHR 0x27] @ ''Turbine'' @ [CHR 0x27] @ '' has no doc block.''))
         fname 1 19,
       diag ''W020'' INFO (ustr (''Definition '' @ [CHR 0x27] @ ''Turbine'' @ [CHR 0x27] @ '' has an empty body.''))
         fname 1 19]"
    by (rule check_engine)
qed

theorem end_to_end_engine_witness:
  "parse 6 (tokenize ''part def Engine { part def Turbine; }'') ''m.sysml'' =
     Some \<lparr>filename = ''m.sysml'', elements =
       [Element ''part_def'' True (Some ''Engine'') None [] None
         [Element ''part_def'' True (Some ''Turbine'') None [] None [] None [] 1 19 None False]
         None [] 1 1 None False]\<rparr>
   \<and> map rule_id (check_file \<lparr>filename = ''m.sysml'', elements =
        [Element ''part_def'' True (Some ''Engine'') None [] None
          [Element ''part_def'' True (Some ''Turbine'') None [] None [] None [] 1 19 None False]
          None [] 1 1 None False]\<rparr> None) = [''W010'', ''W010'', ''W020'']"
proof -
  note t = end_to_end_engine [of "''m.sysml''"]
  have p: "parse 6 (tokenize ''part def Engine { part def Turbine; }'') ''m.sysml'' =
     Some \<lparr>filename = ''m.sysml'', elements =
       [Element ''part_def'' True (Some ''Engine'') None [] None
         [Element ''part_def'' True (Some ''Turbine'') None [] None [] None [] 1 19 None False]
         None [] 1 1 None False]\<rparr>"
    using t le_refl [of "6::nat"] by blast
  have c: "check_file \<lparr>filename = ''m.sysml'', elements =
        [Element ''part_def'' True (Some ''Engine'') None [] None
          [Element ''part_def'' True (Some ''Turbine'') None [] None [] None [] 1 19 None False]
          None [] 1 1 None False]\<rparr> None =
      [diag ''W010'' INFO (ustr (''Definition '' @ [CHR 0x27] @ ''Engine'' @ [CHR 0x27] @ '' has no doc block.''))
         ''m.sysml'' 1 1,
       diag ''W010'' INFO (ustr (''Definition '' @ [CHR 0x27] @ ''Turbine'' @ [CHR 0x27] @ '' has no doc block.''))
         ''m.sysml'' 1 19,
       diag ''W020'' INFO (ustr (''Definition '' @ [CHR 0x27] @ ''Turbine'' @ [CHR 0x27] @ '' has an empty body.''))
         ''m.sysml'' 1 19]"
    using t by blast
  show ?thesis unfolding p c by (simp add: diag_def)
qed

lemma tokenize_weird_name:
  "tokenize (''part def '' @ [CHR 0x27] @ ''weird name'' @ [CHR 0x27] @ '';'') =
    [Token (KW ''part'') ''part'' 1 1, Token (KW ''def'') ''def'' 1 6,
     Token STRING ([CHR 0x27] @ ''weird name'' @ [CHR 0x27]) 1 10,
     Token SEMI '';'' 1 22, Token EOF [] 1 23]"
  by code_simp

lemma parse_weird_name:
  "parse 3
     [Token (KW ''part'') ''part'' 1 1, Token (KW ''def'') ''def'' 1 6,
      Token STRING ([CHR 0x27] @ ''weird name'' @ [CHR 0x27]) 1 10,
      Token SEMI '';'' 1 22, Token EOF [] 1 23] ''m.sysml'' =
   Some \<lparr>filename = ''m.sysml'', elements =
     [Element ''part_def'' True (Some ''weird name'') None [] None [] None [] 1 1 None False]\<rparr>"
  by code_simp

lemma check_weird_name:
  "check_file \<lparr>filename = ''m.sysml'', elements =
     [Element ''part_def'' True (Some ''weird name'') None [] None [] None [] 1 1 None False]\<rparr> None =
    [diag ''W001'' WARNING
       (ustr (''Definition '' @ [CHR 0x27] @ ''weird name'' @ [CHR 0x27] @ '' should use PascalCase (e.g. ''
        @ [CHR 0x27] @ ''WeirdName'' @ [CHR 0x27] @ '').'')) ''m.sysml'' 1 1,
     diag ''W010'' INFO
       (ustr (''Definition '' @ [CHR 0x27] @ ''weird name'' @ [CHR 0x27] @ '' has no doc block.''))
       ''m.sysml'' 1 1,
     diag ''W020'' INFO
       (ustr (''Definition '' @ [CHR 0x27] @ ''weird name'' @ [CHR 0x27] @ '' has an empty body.''))
       ''m.sysml'' 1 1]"
  by code_simp

text \<open>
  Claim C6. The text \<^verbatim>\<open>part def 'weird name';\<close> has a quoted name. The parser strips
  the quotes, so the name of the element is \<^verbatim>\<open>weird name\<close> and the test \<open>is_quoted\<close> of
  the naming rule is false for it: \<open>check_file\<close> returns the naming finding W001 for the
  element, before the two findings of the other rules.
\<close>

theorem quoted_name_gets_naming_finding:
  "tokenize (''part def '' @ [CHR 0x27] @ ''weird name'' @ [CHR 0x27] @ '';'') =
    [Token (KW ''part'') ''part'' 1 1, Token (KW ''def'') ''def'' 1 6,
     Token STRING ([CHR 0x27] @ ''weird name'' @ [CHR 0x27]) 1 10,
     Token SEMI '';'' 1 22, Token EOF [] 1 23]
   \<and> parse 3 (tokenize (''part def '' @ [CHR 0x27] @ ''weird name'' @ [CHR 0x27] @ '';''))
        ''m.sysml'' =
      Some \<lparr>filename = ''m.sysml'', elements =
        [Element ''part_def'' True (Some ''weird name'') None [] None [] None [] 1 1 None False]\<rparr>
   \<and> check_file \<lparr>filename = ''m.sysml'', elements =
        [Element ''part_def'' True (Some ''weird name'') None [] None [] None [] 1 1 None False]\<rparr>
        None =
      [diag ''W001'' WARNING
         (ustr (''Definition '' @ [CHR 0x27] @ ''weird name'' @ [CHR 0x27]
          @ '' should use PascalCase (e.g. '' @ [CHR 0x27] @ ''WeirdName'' @ [CHR 0x27] @ '').''))
         ''m.sysml'' 1 1,
       diag ''W010'' INFO
         (ustr (''Definition '' @ [CHR 0x27] @ ''weird name'' @ [CHR 0x27] @ '' has no doc block.''))
         ''m.sysml'' 1 1,
       diag ''W020'' INFO
         (ustr (''Definition '' @ [CHR 0x27] @ ''weird name'' @ [CHR 0x27] @ '' has an empty body.''))
         ''m.sysml'' 1 1]"
  unfolding tokenize_weird_name parse_weird_name check_weird_name by simp

section \<open>The checker leaves the tree as it is\<close>

lemma set_body_same: "set_body (body e) e = e"
  by (cases e) (simp add: set_body_def)

lemma walk_st_reads:
  assumes "\<And>e fn p. snd (v e fn p) = e"
  shows "walk_st v elems fname parent
         = Some (walk (\<lambda>e fn p. fst (v e fn p)) elems fname parent, elems)"
proof (induction "\<lambda>e fn p. fst (v e fn p)" elems fname parent rule: walk.induct)
  case (1 fname parent)
  show ?case by (subst walk_st.simps) simp
next
  case (2 e es fname parent)
  obtain d1 e1 where v: "v e fname parent = (d1, e1)"
    by (cases "v e fname parent")
  with assms [of e fname parent] have e1: "e1 = e" and d1: "d1 = fst (v e fname parent)"
    by simp_all
  have "walk_st v (e # es) fname parent
        = Option.bind (walk_st v (body e) fname (Some e))
            (\<lambda>inner. Option.bind (walk_st v es fname parent)
               (\<lambda>later. Some (d1 @ fst inner @ fst later, set_body (snd inner) e # snd later)))"
    by (subst walk_st.simps) (simp add: v e1)
  then show ?case
    by (simp add: 2 set_body_same d1)
qed

lemma walking_rule_st_reads:
  assumes "\<And>e fn p. v e fn p = (w e fn p, e)"
  shows "walking_rule_st v f = Some (walk w (elements f) (filename f) None, f)"
proof -
  have "\<And>e fn p. snd (v e fn p) = e" by (simp add: assms)
  from walk_st_reads [of v, OF this] show ?thesis
    by (simp add: walking_rule_st_def assms)
qed

text \<open>
  Claim C9. For every file and every optional set of rule ids, \<open>check_file\<close> with the
  tree as state ends, returns the findings of \<open>check_file\<close>, and leaves the file it got:
  the same filename and the same elements, with every field of every element as it was.
\<close>

theorem check_file_leaves_tree_unchanged:
  "check_file_st f rule_ids = Some (check_file f rule_ids, f)"
  by (simp add: check_file_st_def ALL_RULES_st_def check_file_def collect_diags_def ALL_RULES_def
      rule_diags_def scope_check_st_def naming_check_def documentation_check_def
      structure_check_def
      walking_rule_st_reads [of naming_visit_st naming_visit, OF naming_visit_st_def]
      walking_rule_st_reads [of documentation_visit_st documentation_visit,
        OF documentation_visit_st_def]
      walking_rule_st_reads [of structure_visit_st structure_visit, OF structure_visit_st_def]
      split: option.splits)

end
